theory Spec2Isabelle
  imports Complex_Main "HOL-Library.Multiset" "HOL-Library.Word"
    "HOL-Library.Char_ord" "HOL-Library.List_Lexorder" "HOL-Library.AList"
begin

unbundle bit_operations_syntax

section \<open>Tag batch partitioning (provisioningserver/tags.py)\<close>

text \<open>
  Python's unbounded integers are \<open>int\<close>; \<open>divmod\<close> rounds towards minus infinity, as
  \<open>div\<close> and \<open>mod\<close> on \<open>int\<close> do, and raises when the divisor is zero.
\<close>

datatype tags_error = ZeroDivisionError | ValueError

text \<open>
  \<open>slice(start, None, step)\<close>.  The slices built by \<open>gen_batch_slices\<close> have a start
  in \<open>xrange(batch_count)\<close>, so start and step are never negative there.
\<close>

record slice =
  slice_start :: nat
  slice_step :: nat

definition xrange :: "int \<Rightarrow> nat list" where
  "xrange n = [0..<nat n]"

definition gen_batch_slices :: "int \<Rightarrow> int \<Rightarrow> tags_error + slice list" where
  "gen_batch_slices cnt sz =
     (if sz = 0 then Inl ZeroDivisionError
      else
        let batch_count = cnt div sz;
            remaining = cnt mod sz;
            batch_count = batch_count + (if remaining > 0 then 1 else 0)
        in Inr (map (\<lambda>batch. \<lparr>slice_start = batch, slice_step = nat batch_count\<rparr>)
                  (xrange batch_count)))"

text \<open>
  \<open>things[s]\<close> for a slice with no stop: the elements at \<open>start, start + step, ...\<close>
  below \<open>len(things)\<close>; there are \<open>(len - start + step - 1) // step\<close> of them (none
  when the start is at or past the end).  A step of zero raises \<open>ValueError\<close>.
\<close>

definition getitem_slice :: "'a list \<Rightarrow> slice \<Rightarrow> tags_error + 'a list" where
  "getitem_slice things s =
     (if slice_step s = 0 then Inl ValueError
      else Inr (map (\<lambda>j. things ! (slice_start s + j * slice_step s))
                  [0..<(length things - slice_start s + slice_step s - 1) div slice_step s]))"

fun traverse :: "('a \<Rightarrow> 'e + 'b) \<Rightarrow> 'a list \<Rightarrow> 'e + 'b list" where
  "traverse f [] = Inr []"
| "traverse f (x # xs) =
     (case f x of
        Inl e \<Rightarrow> Inl e
      | Inr y \<Rightarrow> (case traverse f xs of Inl e \<Rightarrow> Inl e | Inr ys \<Rightarrow> Inr (y # ys)))"

definition gen_batches :: "'a list \<Rightarrow> int \<Rightarrow> tags_error + 'a list list" where
  "gen_batches things batch_size =
     (case gen_batch_slices (int (length things)) batch_size of
        Inl e \<Rightarrow> Inl e
      | Inr slices \<Rightarrow> traverse (getitem_slice things) slices)"

text \<open>
  Auxiliary notions for the proofs: the number of batches, the list a strided slice
  selects, and the indices it visits.
\<close>

definition batch_count :: "nat \<Rightarrow> int \<Rightarrow> nat" where
  "batch_count n sz = nat (int n div sz + (if int n mod sz > 0 then 1 else 0))"

definition strided :: "'a list \<Rightarrow> nat \<Rightarrow> nat \<Rightarrow> 'a list" where
  "strided things k b =
     map (\<lambda>j. things ! (b + j * k)) [0..<(length things - b + k - 1) div k]"

definition stride_indices :: "nat \<Rightarrow> nat \<Rightarrow> nat \<Rightarrow> nat list" where
  "stride_indices n k b = map (\<lambda>j. b + j * k) [0..<(n - b + k - 1) div k]"

section \<open>Cluster security (provisioningserver/security.py)\<close>

subsection \<open>hashlib and hmac\<close>

type_synonym byte = "8 word"
type_synonym bytes = "byte list"

text \<open>
  A hash constructor of \<open>hashlib\<close>, such as \<open>sha256\<close>: the function from a message to
  its digest, and the block size (64 for SHA-256).  \<open>sha256\<close> is imported from
  \<open>hashlib\<close>, so it is a parameter of \<open>calculate_digest\<close> below.
\<close>

record digestmod =
  hash_function :: "bytes \<Rightarrow> bytes"
  block_size :: nat

text \<open>
  A hash object: \<open>update\<close> feeds data, and the digest is that of the concatenation of
  everything fed so far.
\<close>

record hash_object =
  algorithm :: digestmod
  fed :: bytes

definition hash_new :: "digestmod \<Rightarrow> hash_object" where
  "hash_new digest_cons = \<lparr>algorithm = digest_cons, fed = []\<rparr>"

definition hash_update :: "hash_object \<Rightarrow> bytes \<Rightarrow> hash_object" where
  "hash_update h d = h\<lparr>fed := fed h @ d\<rparr>"

definition hash_digest :: "hash_object \<Rightarrow> bytes" where
  "hash_digest h = hash_function (algorithm h) (fed h)"

text \<open>
  \<open>hmac.HMAC(key, digestmod=...)\<close>: the block size is that of the hash (64 when the hash
  reports less than 16); a key longer than the block is hashed; the key is padded with
  zero bytes to the block; the key XOR \<open>0x5C\<close> is fed to the outer hash object and the
  key XOR \<open>0x36\<close> to the inner one.  \<open>update\<close> feeds the inner object; \<open>digest\<close> feeds
  the inner digest to a copy of the outer object and returns its digest.
\<close>

record hmac_object =
  outer :: hash_object
  inner :: hash_object

definition ljust :: "bytes \<Rightarrow> nat \<Rightarrow> byte \<Rightarrow> bytes" where
  "ljust b width fill = b @ replicate (width - length b) fill"

definition HMAC :: "bytes \<Rightarrow> digestmod \<Rightarrow> hmac_object" where
  "HMAC key digest_cons =
     (let blocksize = (if block_size digest_cons < 16 then 64 else block_size digest_cons);
          key = (if length key > blocksize
                 then hash_digest (hash_update (hash_new digest_cons) key) else key);
          key = ljust key blocksize 0
      in \<lparr>outer = hash_update (hash_new digest_cons) (map (\<lambda>x. x XOR 0x5C) key),
          inner = hash_update (hash_new digest_cons) (map (\<lambda>x. x XOR 0x36) key)\<rparr>)"

definition hmac_update :: "hmac_object \<Rightarrow> bytes \<Rightarrow> hmac_object" where
  "hmac_update h msg = h\<lparr>inner := hash_update (inner h) msg\<rparr>"

definition hmac_digest :: "hmac_object \<Rightarrow> bytes" where
  "hmac_digest h = hash_digest (hash_update (outer h) (hash_digest (inner h)))"

definition calculate_digest :: "digestmod \<Rightarrow> bytes \<Rightarrow> bytes \<Rightarrow> bytes \<Rightarrow> bytes" where
  "calculate_digest sha secret message salt =
     (let hmacr = HMAC secret sha;
          hmacr = hmac_update hmacr message;
          hmacr = hmac_update hmacr salt
      in hmac_digest hmacr)"

text \<open>
  HMAC as RFC 2104 words it, for a hash \<open>H\<close> with 64-byte blocks such as SHA-256:
  \<open>H((K XOR opad) || H((K XOR ipad) || text))\<close>, where \<open>K\<close> is the key, hashed first
  when longer than the block, then padded with zeros to the block.
\<close>

definition hmac_rfc2104 :: "(bytes \<Rightarrow> bytes) \<Rightarrow> bytes \<Rightarrow> bytes \<Rightarrow> bytes" where
  "hmac_rfc2104 H key text =
     (let k0 = (if length key > 64 then H key else key);
          k = k0 @ replicate (64 - length k0) 0
      in H (map (\<lambda>x. x XOR 0x5C) k @ H (map (\<lambda>x. x XOR 0x36) k @ text)))"

text \<open>A stand-in hash for examples: the sum of the bytes, as one byte.\<close>

definition example_hash :: digestmod where
  "example_hash = \<lparr>hash_function = (\<lambda>m. [foldr (+) m 0]), block_size = 64\<rparr>"

subsection \<open>Hex encoding (binascii) and the secret file\<close>

datatype errno = ENOENT | EACCES | EISDIR | EIO

datatype security_error =
    IOError errno
  | BinasciiError
  | UnicodeEncodeError
  | UnicodeDecodeError

text \<open>
  \<open>b2a_hex\<close> writes two lower-case hex digits per byte; \<open>a2b_hex\<close> reads digits of
  either case and raises \<open>binascii.Error\<close> on an odd length or on any other byte.
\<close>

definition hexdigit :: "nat \<Rightarrow> byte" where
  "hexdigit n = of_nat (of_char (''0123456789abcdef'' ! n))"

definition b2a_hex :: "bytes \<Rightarrow> bytes" where
  "b2a_hex b = concat (map (\<lambda>x. [hexdigit (unat x div 16), hexdigit (unat x mod 16)]) b)"

definition unhex :: "byte \<Rightarrow> nat option" where
  "unhex c =
     (if 0x30 \<le> c \<and> c \<le> 0x39 then Some (unat c - 0x30)
      else if 0x61 \<le> c \<and> c \<le> 0x66 then Some (unat c - 0x61 + 10)
      else if 0x41 \<le> c \<and> c \<le> 0x46 then Some (unat c - 0x41 + 10)
      else None)"

fun a2b_hex :: "bytes \<Rightarrow> security_error + bytes" where
  "a2b_hex [] = Inr []"
| "a2b_hex [x] = Inl BinasciiError"
| "a2b_hex (x # y # rest) =
     (case (unhex x, unhex y) of
        (Some h, Some l) \<Rightarrow>
          (case a2b_hex rest of
             Inl e \<Rightarrow> Inl e
           | Inr bs \<Rightarrow> Inr (of_nat (16 * h + l) # bs))
      | _ \<Rightarrow> Inl BinasciiError)"

text \<open>
  A Python \<open>str\<close> is a \<open>string\<close>; the ASCII codec accepts code points below 128 only.
\<close>

definition decode_ascii :: "bytes \<Rightarrow> security_error + string" where
  "decode_ascii b =
     (if \<forall>x\<in>set b. x < 0x80 then Inr (map (\<lambda>x. char_of (unat x)) b) else Inl UnicodeDecodeError)"

definition encode_ascii :: "string \<Rightarrow> security_error + bytes" where
  "encode_ascii u =
     (if \<forall>c\<in>set u. (of_char c :: nat) < 0x80 then Inr (map (\<lambda>c. of_nat (of_char c)) u)
      else Inl UnicodeEncodeError)"

definition is_ascii_whitespace :: "byte \<Rightarrow> bool" where
  "is_ascii_whitespace c \<longleftrightarrow> c \<in> {0x20, 0x09, 0x0A, 0x0B, 0x0C, 0x0D}"

definition strip :: "bytes \<Rightarrow> bytes" where
  "strip b = rev (dropWhile is_ascii_whitespace (rev (dropWhile is_ascii_whitespace b)))"

definition to_hex :: "bytes \<Rightarrow> security_error + string" where
  "to_hex b = decode_ascii (b2a_hex b)"

definition to_bin :: "string \<Rightarrow> security_error + bytes" where
  "to_bin u = (case encode_ascii u of Inl e \<Rightarrow> Inl e | Inr b \<Rightarrow> a2b_hex (strip b))"

text \<open>
  The file system, as far as the secret file is concerned: a path holds nothing, a file
  (permission bits and text content; \<open>0o640\<close> is 416 and \<open>0o644\<close> is 420), or
  something that fails with an \<open>errno\<close> when it is opened.  Directories and the advisory lock are not part of the state: \<open>makedirs\<close>
  with \<open>exist_ok\<close> and the acquisition of the lock by a single caller change nothing.
\<close>

datatype fs_node = File (mode: nat) (content: string) | Broken errno

type_synonym filesystem = "string \<rightharpoonup> fs_node"

definition get_shared_secret_filesystem_path :: string where
  "get_shared_secret_filesystem_path = ''var/lib/maas/secret''"

text \<open>
  Modelled from the spec: \<open>read_text_file\<close> and \<open>write_text_file\<close> of
  \<open>provisioningserver.utils.fs\<close> are not among the sources.  Reading returns the text
  of the file and raises \<open>IOError\<close> with \<open>ENOENT\<close> when the file is absent (``Read returns no
  value if the file is absent; other I/O failures propagate''); writing stores the text
  (``storing the secret hex-encoded as text'').
\<close>

definition default_file_mode :: nat where
  "default_file_mode = 420"

definition read_text_file :: "filesystem \<Rightarrow> string \<Rightarrow> security_error + string" where
  "read_text_file fs path =
     (case fs path of
        None \<Rightarrow> Inl (IOError ENOENT)
      | Some (Broken e) \<Rightarrow> Inl (IOError e)
      | Some (File m text) \<Rightarrow> Inr text)"

definition write_text_file :: "filesystem \<Rightarrow> string \<Rightarrow> string \<Rightarrow> security_error + filesystem" where
  "write_text_file fs path text =
     (case fs path of
        None \<Rightarrow> Inr (fs(path \<mapsto> File default_file_mode text))
      | Some (Broken e) \<Rightarrow> Inl (IOError e)
      | Some (File m old) \<Rightarrow> Inr (fs(path \<mapsto> File m text)))"

text \<open>\<open>open(path, "ab")\<close> creates an empty file when there is none; \<open>fchmod\<close> sets its bits.\<close>

definition open_append_fchmod :: "filesystem \<Rightarrow> string \<Rightarrow> nat \<Rightarrow> security_error + filesystem" where
  "open_append_fchmod fs path bits =
     (case fs path of
        None \<Rightarrow> Inr (fs(path \<mapsto> File bits []))
      | Some (Broken e) \<Rightarrow> Inl (IOError e)
      | Some (File m text) \<Rightarrow> Inr (fs(path \<mapsto> File bits text)))"

definition get_shared_secret_from_filesystem :: "filesystem \<Rightarrow> security_error + bytes option" where
  "get_shared_secret_from_filesystem fs =
     (let secret_path = get_shared_secret_filesystem_path
      in case read_text_file fs secret_path of
           Inl (IOError e) \<Rightarrow> if e = ENOENT then Inr None else Inl (IOError e)
         | Inl other \<Rightarrow> Inl other
         | Inr secret_hex \<Rightarrow>
             (case to_bin secret_hex of Inl e \<Rightarrow> Inl e | Inr b \<Rightarrow> Inr (Some b)))"

definition set_shared_secret_on_filesystem :: "bytes \<Rightarrow> filesystem \<Rightarrow> security_error + filesystem" where
  "set_shared_secret_on_filesystem secret fs =
     (let secret_path = get_shared_secret_filesystem_path
      in case to_hex secret of
           Inl e \<Rightarrow> Inl e
         | Inr secret_hex \<Rightarrow>
             (case open_append_fchmod fs secret_path 416 of
                Inl e \<Rightarrow> Inl e
              | Inr fs1 \<Rightarrow> write_text_file fs1 secret_path secret_hex))"

section \<open>Script API (maasserver/api/scripts.py)\<close>

text \<open>
  Modelled from the spec: the versioned text file behind \<open>script.script\<close>
  (\<open>metadataserver.models\<close>, not among the sources) is ``versioned script content with revision
  history (id, comment, created, data)''.  A version points to the one it replaced, and
  \<open>previous_versions()\<close> walks from a version back through that chain, the version itself
  first.
\<close>

datatype versioned_text_file =
  VersionedTextFile (vtf_id: int) (vtf_comment: string) (vtf_created: nat) (vtf_data: string)
    (previous_version: "versioned_text_file option")

fun previous_versions :: "versioned_text_file \<Rightarrow> versioned_text_file list" where
  "previous_versions (VersionedTextFile i c t d None) = [VersionedTextFile i c t d None]"
| "previous_versions (VersionedTextFile i c t d (Some p)) =
     VersionedTextFile i c t d (Some p) # previous_versions p"

record script =
  script_id :: int
  script_name :: string
  script_default :: bool
  script_script :: versioned_text_file

datatype validation_message =
    NotFoundInHistory int
  | InvalidParameter string

datatype api_error =
    Http404
  | MAASAPIValidationError validation_message
  | IntValueError

record http_response =
  response_content :: string
  content_type :: string

definition HttpResponse :: "string \<Rightarrow> string \<Rightarrow> http_response" where
  "HttpResponse body ctype = \<lparr>response_content = body, content_type = ctype\<rparr>"

text \<open>
  A name is a string of code points below 256.  \<open>name.isdigit()\<close> holds for a name that
  is not empty and consists of characters with the digit property: the decimal digits
  \<open>0\<close> to \<open>9\<close> and the superscripts U+00B2, U+00B3 and U+00B9.  \<open>int(name)\<close>, which the
  handler calls on such a name only, returns the number when every character is a
  decimal digit and raises \<open>ValueError\<close> when a superscript is among them.
\<close>

definition is_decimal_char :: "char \<Rightarrow> bool" where
  "is_decimal_char c \<longleftrightarrow> 48 \<le> (of_char c :: nat) \<and> (of_char c :: nat) \<le> 57"

definition is_digit_char :: "char \<Rightarrow> bool" where
  "is_digit_char c \<longleftrightarrow>
     is_decimal_char c \<or> (of_char c :: nat) = 178 \<or> (of_char c :: nat) = 179
       \<or> (of_char c :: nat) = 185"

definition isdigit :: "string \<Rightarrow> bool" where
  "isdigit s \<longleftrightarrow> s \<noteq> [] \<and> list_all is_digit_char s"

definition int_of_digits :: "string \<Rightarrow> int" where
  "int_of_digits s = foldl (\<lambda>acc c. 10 * acc + (of_char c - 48)) 0 s"

definition int_of_name :: "string \<Rightarrow> api_error + int" where
  "int_of_name name =
     (if list_all is_decimal_char name then Inr (int_of_digits name) else Inl IntValueError)"

text \<open>\<open>get_object_or_404(Script, ...)\<close> over the table of scripts.\<close>

definition get_object_or_404 :: "script list \<Rightarrow> (script \<Rightarrow> bool) \<Rightarrow> api_error + script" where
  "get_object_or_404 table p = (case find p table of None \<Rightarrow> Inl Http404 | Some s \<Rightarrow> Inr s)"

text \<open>
  Modelled from the spec: \<open>get_optional_param\<close> (\<open>maasserver.api.utils\<close>, not among the
  sources) returns the default when the parameter is absent and the validated value
  otherwise.  The validator (\<open>formencode\<close>'s \<open>Int\<close>) is a parameter: it returns an
  integer, or none, or raises.
\<close>

definition get_optional_param ::
  "(string \<rightharpoonup> string) \<Rightarrow> string \<Rightarrow> 'a option \<Rightarrow> (string \<Rightarrow> api_error + 'a option)
     \<Rightarrow> api_error + 'a option" where
  "get_optional_param params key dflt validator =
     (case params key of None \<Rightarrow> Inr dflt | Some v \<Rightarrow> validator v)"

definition download ::
  "(string \<Rightarrow> api_error + int option) \<Rightarrow> script list \<Rightarrow> (string \<rightharpoonup> string) \<Rightarrow> string
     \<Rightarrow> api_error + http_response" where
  "download Int_validator scripts GET name =
     (case (if isdigit name
            then (case int_of_name name of
                    Inl e \<Rightarrow> Inl e
                  | Inr n \<Rightarrow> get_object_or_404 scripts (\<lambda>s. script_id s = n))
            else get_object_or_404 scripts (\<lambda>s. script_name s = name)) of
        Inl e \<Rightarrow> Inl e
      | Inr script \<Rightarrow>
          (case get_optional_param GET ''revision'' None Int_validator of
             Inl e \<Rightarrow> Inl e
           | Inr revision0 \<Rightarrow>
               (case (if revision0 = None
                      then get_optional_param GET ''rev'' None Int_validator
                      else Inr revision0) of
                  Inl e \<Rightarrow> Inl e
                | Inr None \<Rightarrow>
                    Inr (HttpResponse (vtf_data (script_script script)) ''application/binary'')
                | Inr (Some revision) \<Rightarrow>
                    (case find (\<lambda>ver. vtf_id ver = revision)
                            (previous_versions (script_script script)) of
                       Some ver \<Rightarrow> Inr (HttpResponse (vtf_data ver) ''application/binary'')
                     | None \<Rightarrow> Inl (MAASAPIValidationError (NotFoundInHistory revision))))))"

text \<open>The lookup of the script that the handler begins with, on its own.\<close>

definition lookup_script :: "script list \<Rightarrow> string \<Rightarrow> api_error + script" where
  "lookup_script scripts name =
     (if isdigit name
      then (case int_of_name name of
              Inl e \<Rightarrow> Inl e
            | Inr n \<Rightarrow> get_object_or_404 scripts (\<lambda>s. script_id s = n))
      else get_object_or_404 scripts (\<lambda>s. script_name s = name))"

text \<open>A script with three revisions, and a validator of decimal integers, for examples.\<close>

definition example_script :: script where
  "example_script =
     \<lparr>script_id = 7, script_name = ''memtest'', script_default = False,
      script_script =
        VersionedTextFile 3 ''third'' 30 ''echo 3''
          (Some (VersionedTextFile 2 ''second'' 20 ''echo 2''
            (Some (VersionedTextFile 1 ''first'' 10 ''echo 1'' None))))\<rparr>"

definition example_Int :: "string \<Rightarrow> api_error + int option" where
  "example_Int v =
     (if v = [] then Inr None
      else if list_all is_decimal_char v then Inr (Some (int_of_digits v))
      else Inl (MAASAPIValidationError (InvalidParameter v)))"

section \<open>MAC addresses and static IP addresses (maasserver/models/macaddress.py)\<close>

text \<open>
  An \<open>IPAddress\<close> of \<open>netaddr\<close> is its integer value; an \<open>IPNetwork\<close> is the range of
  the addresses it contains.  The requested address is taken as already parsed.
\<close>

type_synonym ip_address = nat

record ip_network =
  net_first :: ip_address
  net_last :: ip_address

definition in_network :: "ip_address \<Rightarrow> ip_network \<Rightarrow> bool" where
  "in_network a n \<longleftrightarrow> net_first n \<le> a \<and> a \<le> net_last n"

datatype ipaddress_type = AUTO | STICKY | USER_RESERVED | OTHER_TYPE nat

record nodegroupinterface =
  ngi_name :: string
  nodegroup :: string
  network :: "ip_network option"
  subnet :: "nat option"
  ip_range_low :: "ip_address option"
  ip_range_high :: "ip_address option"

text \<open>
  Modelled from the spec: \<open>Node\<close> is not among the sources.  A node has a hostname, an
  \<open>installable\<close> flag and a nullable \<open>parent\<close> (``for child devices that inherit
  networking from a parent's PXE-boot MAC''); \<open>get_primary_mac()\<close> and \<open>get_pxe_mac()\<close>
  return one of its MACs or none, seen here as the address and the cluster interface of
  that MAC.
\<close>

record mac_ref =
  ref_mac_address :: string
  ref_cluster_interface :: "nodegroupinterface option"

datatype node =
  Node (hostname: string) (installable: bool) (parent: "node option")
    (get_primary_mac: "mac_ref option") (get_pxe_mac: "mac_ref option")

record macaddress =
  mac_address :: string
  node :: "node option"
  cluster_interface :: "nodegroupinterface option"

record static_ip_address =
  sip_id :: nat
  sip_ip :: ip_address
  alloc_type :: ipaddress_type
  sip_user :: "string option"
  sip_subnet :: "nat option"

datatype effect =
    UpdateHostMaps string "ip_address \<times> string" "string list"
  | DnsUpdateZones "string option"

text \<open>
  The tables the method reads and writes: \<open>StaticIPAddress\<close>, the link table between
  MACs and static addresses (a MAC address and the id of a static address), the cluster
  interfaces, the clusters with whether each manages DHCP; and the requests it sends
  out for DHCP host maps and DNS zones.
\<close>

record database =
  static_ip_addresses :: "static_ip_address list"
  mac_static_ip_links :: "(string \<times> nat) list"
  node_group_interfaces :: "nodegroupinterface list"
  node_groups :: "(string \<times> bool) list"
  effects :: "effect list"

datatype unavailable_reason = DifferentType | DifferentMAC

datatype mac_error =
    NotImplementedError
  | StaticIPAddressConflict
  | StaticIPAddressForbidden
  | StaticIPAddressUnavailable unavailable_reason
  | AttributeError
  | TypeError

definition get_cluster_interface :: "macaddress \<Rightarrow> mac_error + nodegroupinterface option" where
  "get_cluster_interface self =
     (if cluster_interface self \<noteq> None then Inr (cluster_interface self)
      else
        case node self of
          None \<Rightarrow> Inl AttributeError
        | Some nd \<Rightarrow>
            (case (installable nd, parent nd) of
               (False, Some p) \<Rightarrow>
                 if map_option ref_mac_address (get_primary_mac nd) = Some (mac_address self)
                 then (case get_pxe_mac p of
                         None \<Rightarrow> Inl AttributeError
                       | Some pxe \<Rightarrow> Inr (ref_cluster_interface pxe))
                 else Inr None
             | _ \<Rightarrow> Inr None))"

text \<open>
  Modelled from the spec: \<open>raise_if_address_inside_dynamic_range\<close>
  (\<open>maasserver.models.nodegroupinterface\<close>, not among the sources): ``The address must not lie
  within any dynamic range, else fails as forbidden'', the dynamic range of an interface
  being \<open>ip_range_low\<close> to \<open>ip_range_high\<close>.
\<close>

definition inside_dynamic_range :: "nodegroupinterface \<Rightarrow> ip_address \<Rightarrow> bool" where
  "inside_dynamic_range i a =
     (case (ip_range_low i, ip_range_high i) of
        (Some lo, Some hi) \<Rightarrow> lo \<le> a \<and> a \<le> hi
      | _ \<Rightarrow> False)"

definition raise_if_address_inside_dynamic_range ::
  "database \<Rightarrow> ip_address \<Rightarrow> string option \<Rightarrow> mac_error + unit" where
  "raise_if_address_inside_dynamic_range db requested_address fabric =
     (if fabric \<noteq> None then Inl NotImplementedError
      else if list_ex (\<lambda>i. inside_dynamic_range i requested_address) (node_group_interfaces db)
      then Inl StaticIPAddressForbidden
      else Inr ())"

text \<open>
  \<open>StaticIPAddress.objects.get_or_create(ip=..., defaults=...)\<close>: the row with that
  address, or a new row with a fresh id.
\<close>

definition fresh_sip_id :: "database \<Rightarrow> nat" where
  "fresh_sip_id db = Suc (foldr max (map sip_id (static_ip_addresses db)) 0)"

definition get_or_create ::
  "database \<Rightarrow> ip_address \<Rightarrow> ipaddress_type \<Rightarrow> string \<Rightarrow> nat option
     \<Rightarrow> static_ip_address \<times> bool \<times> database" where
  "get_or_create db ip default_alloc_type default_user default_subnet =
     (case find (\<lambda>s. sip_ip s = ip) (static_ip_addresses db) of
        Some s \<Rightarrow> (s, False, db)
      | None \<Rightarrow>
          (let s = \<lparr>sip_id = fresh_sip_id db, sip_ip = ip, alloc_type = default_alloc_type,
                    sip_user = Some default_user, sip_subnet = default_subnet\<rparr>
           in (s, True, db\<lparr>static_ip_addresses := static_ip_addresses db @ [s]\<rparr>)))"

definition get_dhcp_managed_clusters :: "database \<Rightarrow> string list" where
  "get_dhcp_managed_clusters db = map fst (filter snd (node_groups db))"

definition set_static_ip ::
  "macaddress \<Rightarrow> database \<Rightarrow> ip_address \<Rightarrow> string \<Rightarrow> string option \<Rightarrow> bool
     \<Rightarrow> mac_error + static_ip_address \<times> database" where
  "set_static_ip self db requested_address user fabric update_host_maps =
     (if fabric \<noteq> None then Inl NotImplementedError
      else
        case get_cluster_interface self of
          Inl e \<Rightarrow> Inl e
        | Inr ci \<Rightarrow>
       (case (case ci of
                None \<Rightarrow> Inr ()
              | Some c \<Rightarrow>
                  (case network c of
                     None \<Rightarrow> Inl TypeError
                   | Some net \<Rightarrow>
                       if \<not> in_network requested_address net
                       then Inl StaticIPAddressConflict else Inr ())) of
          Inl e \<Rightarrow> Inl e
        | Inr _ \<Rightarrow>
       (case raise_if_address_inside_dynamic_range db requested_address fabric of
          Inl e \<Rightarrow> Inl e
        | Inr _ \<Rightarrow>
       (let sub = (case ci of None \<Rightarrow> None | Some c \<Rightarrow> subnet c);
            (static_ip, created, db1) = get_or_create db requested_address STICKY user sub
        in
        case (if created
              then Inr (db1\<lparr>mac_static_ip_links :=
                          mac_static_ip_links db1 @ [(mac_address self, sip_id static_ip)]\<rparr>)
              else if alloc_type static_ip \<noteq> STICKY
              then Inl (StaticIPAddressUnavailable DifferentType)
              else if (mac_address self, sip_id static_ip) \<notin> set (mac_static_ip_links db1)
              then Inl (StaticIPAddressUnavailable DifferentMAC)
              else Inr db1) of
          Inl e \<Rightarrow> Inl e
        | Inr db2 \<Rightarrow>
            if update_host_maps then
              (case node self of
                 None \<Rightarrow> Inl AttributeError
               | Some nd \<Rightarrow>
                   Inr (static_ip,
                        db2\<lparr>effects := effects db2 @
                          [UpdateHostMaps (hostname nd) (sip_ip static_ip, mac_address self)
                             (case ci of
                                Some c \<Rightarrow> [nodegroup c]
                              | None \<Rightarrow> get_dhcp_managed_clusters db2),
                           DnsUpdateZones (map_option nodegroup ci)]\<rparr>))
            else Inr (static_ip, db2)))))"

definition address_is_dynamic :: "database \<Rightarrow> ip_address \<Rightarrow> bool" where
  "address_is_dynamic db a \<longleftrightarrow> (\<exists>i \<in> set (node_group_interfaces db). inside_dynamic_range i a)"

definition outside_network :: "nodegroupinterface option \<Rightarrow> ip_address \<Rightarrow> bool" where
  "outside_network ci a \<longleftrightarrow> (\<exists>c net. ci = Some c \<and> network c = Some net \<and> \<not> in_network a net)"

text \<open>
  An example: a device on the cluster interface \<open>eth0\<close> with network 100 to 199 and
  dynamic range 150 to 160; address 110 is the device's own sticky address, 120 is an
  automatic address, 130 is the sticky address of another MAC.
\<close>

definition example_interface :: nodegroupinterface where
  "example_interface =
     \<lparr>ngi_name = ''eth0'', nodegroup = ''cluster-1'',
      network = Some \<lparr>net_first = 100, net_last = 199\<rparr>, subnet = Some 1,
      ip_range_low = Some 150, ip_range_high = Some 160\<rparr>"

definition example_mac :: macaddress where
  "example_mac =
     \<lparr>mac_address = ''aa:bb:cc:dd:ee:01'',
      node = Some (Node ''device'' False None None None),
      cluster_interface = Some example_interface\<rparr>"

definition example_sticky :: static_ip_address where
  "example_sticky =
     \<lparr>sip_id = 1, sip_ip = 110, alloc_type = STICKY, sip_user = Some ''alice'', sip_subnet = Some 1\<rparr>"

definition example_database :: database where
  "example_database =
     \<lparr>static_ip_addresses =
        [example_sticky,
         \<lparr>sip_id = 2, sip_ip = 120, alloc_type = AUTO, sip_user = None, sip_subnet = Some 1\<rparr>,
         \<lparr>sip_id = 3, sip_ip = 130, alloc_type = STICKY, sip_user = Some ''bob'', sip_subnet = Some 1\<rparr>],
      mac_static_ip_links = [(''aa:bb:cc:dd:ee:01'', 1), (''aa:bb:cc:dd:ee:02'', 3)],
      node_group_interfaces = [example_interface],
      node_groups = [(''cluster-1'', True)],
      effects = []\<rparr>"

section \<open>Merging node details (provisioningserver/tags.py)\<close>

text \<open>
  An \<open>lxml\<close> element: its tag (a namespace, or none, and a local name), the namespace
  declarations it carries itself, and its child elements.  \<open>etree.fromstring\<close> is a
  parameter of the functions below: it returns the root element of a well-formed document
  and none where \<open>lxml\<close> raises \<open>XMLSyntaxError\<close>.
\<close>

datatype element =
  Element (tag_namespace: "string option") (tag_local: string)
    (nsdecls: "(string \<times> string) list") (children: "element list")

text \<open>
  A root element together with the namespace map it inherits from the element it has
  been made a child of (empty when it has no parent).
\<close>

record document =
  getroot :: element
  inherited_nsmap :: "(string \<times> string) list"

text \<open>
  The \<open>details\<close> dictionary, from a namespace to XML bytes or \<open>None\<close>, is an association
  list read through \<open>map_of\<close>; \<open>sorted(details)\<close> is the sorted list of its keys.
\<close>

type_synonym details = "(string \<times> string option) list"

definition sorted_keys :: "details \<Rightarrow> string list" where
  "sorted_keys details = sort (remdups (map fst details))"

definition append_child :: "element \<Rightarrow> element \<Rightarrow> element" where
  "append_child root' child =
     Element (tag_namespace root') (tag_local root') (nsdecls root') (children root' @ [child])"

text \<open>
  \<open>etree.Element("list", nsmap=nsmap)\<close> raises \<open>ValueError\<close> unless every key of the
  namespace map is a name that \<open>lxml\<close> accepts as a prefix and as a namespace URI.  Which
  names these are is the parameter \<open>accepts\<close>.
\<close>

datatype lxml_error = LxmlValueError

definition details_prepare_merge ::
  "(string \<Rightarrow> bool) \<Rightarrow> details \<Rightarrow> lxml_error + details \<times> document" where
  "details_prepare_merge accepts details =
     (let nsmap = map (\<lambda>ns. (ns, ns)) (sorted_keys details)
      in if list_all accepts (map fst nsmap)
         then Inr (details, \<lparr>getroot = Element None ''list'' nsmap [], inherited_nsmap = []\<rparr>)
         else Inl LxmlValueError)"

definition details_make_backwards_compatible ::
  "(string \<Rightarrow> element option) \<Rightarrow> details \<Rightarrow> document \<Rightarrow> details \<times> document" where
  "details_make_backwards_compatible fromstring details root' =
     (case map_of details ''lshw'' of
        Some (Some xmldata) \<Rightarrow>
          (case fromstring xmldata of
             None \<Rightarrow> (filter (\<lambda>kv. fst kv \<noteq> ''lshw'') details, root')
           | Some lshw \<Rightarrow>
               (details,
                \<lparr>getroot = lshw,
                 inherited_nsmap = inherited_nsmap root' @ nsdecls (getroot root')\<rparr>))
      | _ \<Rightarrow> (details, root'))"

text \<open>
  \<open>detail.iter()\<close>: the element and its descendants in document order.
\<close>

fun iter_elems :: "element \<Rightarrow> element list" where
  "iter_elems (Element ns name decls elems) =
     Element ns name decls elems # concat (map iter_elems elems)"

text \<open>\<open>for elem in detail.iter("{}*"): elem.tag = etree.QName(namespace, elem.tag)\<close>\<close>

fun add_namespace :: "string \<Rightarrow> element \<Rightarrow> element" where
  "add_namespace namespace (Element ns name decls elems) =
     Element (case ns of None \<Rightarrow> Some namespace | Some n \<Rightarrow> Some n) name decls
       (map (add_namespace namespace) elems)"

fun merge_loop ::
  "(string \<Rightarrow> element option) \<Rightarrow> details \<Rightarrow> string list \<Rightarrow> element \<Rightarrow> element" where
  "merge_loop fromstring details [] root' = root'"
| "merge_loop fromstring details (namespace # rest) root' =
     (case map_of details namespace of
        Some (Some xmldata) \<Rightarrow>
          (case fromstring xmldata of
             None \<Rightarrow> merge_loop fromstring details rest root'
           | Some detail \<Rightarrow>
               merge_loop fromstring details rest
                 (append_child root' (add_namespace namespace detail)))
      | _ \<Rightarrow> merge_loop fromstring details rest root')"

definition details_do_merge ::
  "(string \<Rightarrow> element option) \<Rightarrow> details \<Rightarrow> document \<Rightarrow> document" where
  "details_do_merge fromstring details root' =
     root'\<lparr>getroot := merge_loop fromstring details (sorted_keys details) (getroot root')\<rparr>"

definition merge_details ::
  "(string \<Rightarrow> bool) \<Rightarrow> (string \<Rightarrow> element option) \<Rightarrow> details \<Rightarrow> lxml_error + document" where
  "merge_details accepts fromstring details =
     (case details_prepare_merge accepts details of
        Inl e \<Rightarrow> Inl e
      | Inr (details, root') \<Rightarrow>
          (let (details, root') = details_make_backwards_compatible fromstring details root'
           in Inr (details_do_merge fromstring details root')))"

definition merge_details_cleanly ::
  "(string \<Rightarrow> bool) \<Rightarrow> (string \<Rightarrow> element option) \<Rightarrow> details \<Rightarrow> lxml_error + document" where
  "merge_details_cleanly accepts fromstring details =
     (case details_prepare_merge accepts details of
        Inl e \<Rightarrow> Inl e
      | Inr (details, root') \<Rightarrow> Inr (details_do_merge fromstring details root'))"

text \<open>The documents of one namespace after another that the loop appends.\<close>

definition merged_details :: "(string \<Rightarrow> element option) \<Rightarrow> details \<Rightarrow> string list \<Rightarrow> element list" where
  "merged_details fromstring details namespaces =
     concat (map (\<lambda>namespace.
        case map_of details namespace of
          Some (Some xmldata) \<Rightarrow>
            (case fromstring xmldata of
               None \<Rightarrow> []
             | Some detail \<Rightarrow> [add_namespace namespace detail])
        | _ \<Rightarrow> []) namespaces)"

text \<open>
  A parser that knows three documents, and the two namespaces of the examples.  The third
  document is \<open><a xmlns:x="urn:x"><x:b><c><d/></c></x:b></a>\<close>.
\<close>

definition example_nested :: string where
  "example_nested = ''<a xmlns:x=\"urn:x\"><x:b><c><d/></c></x:b></a>''"

definition example_fromstring :: "string \<Rightarrow> element option" where
  "example_fromstring xmldata =
     (if xmldata = ''<list><node/></list>''
      then Some (Element None ''list'' [] [Element None ''node'' [] []])
      else if xmldata = ''<info/>'' then Some (Element None ''info'' [] [])
      else if xmldata = example_nested
      then Some (Element None ''a'' [(''x'', ''urn:x'')]
                  [Element (Some ''urn:x'') ''b'' []
                     [Element None ''c'' [] [Element None ''d'' [] []]]])
      else None)"

definition example_accepts :: "string \<Rightarrow> bool" where
  "example_accepts name \<longleftrightarrow> name = ''lshw'' \<or> name = ''lldp''"

section \<open>CLI profile store (maascli/config.py)\<close>

text \<open>
  The Python values that can be assigned to a profile, as far as \<open>json\<close> tells them
  apart: \<open>None\<close>, booleans, integers, floats, strings, lists, tuples and dictionaries, and
  bytes as a kind of value that \<open>json.dumps\<close> rejects.  A float is the 64 bits of its IEEE
  754 double.  A dictionary is an insertion-ordered association list; its keys are
  strings, integers, floats, booleans or \<open>None\<close>, the kinds of key that \<open>json.dumps\<close>
  accepts.
\<close>

datatype pykey = KStr string | KInt int | KFloat "64 word" | KBool bool | KNone

datatype pyval =
    PyNone
  | PyBool bool
  | PyInt int
  | PyFloat "64 word"
  | PyStr string
  | PyBytes string
  | PyList "pyval list"
  | PyTuple "pyval list"
  | PyDict "(pykey \<times> pyval) list"

text \<open>The fields of a double: sign, biased exponent and fraction.\<close>

definition float_sign :: "64 word \<Rightarrow> bool" where
  "float_sign w = bit w 63"

definition float_exponent :: "64 word \<Rightarrow> nat" where
  "float_exponent w = unat (take_bit 11 (drop_bit 52 w))"

definition float_fraction :: "64 word \<Rightarrow> nat" where
  "float_fraction w = unat (take_bit 52 w)"

definition is_nan :: "64 word \<Rightarrow> bool" where
  "is_nan w \<longleftrightarrow> float_exponent w = 2047 \<and> float_fraction w \<noteq> 0"

definition is_zero :: "64 word \<Rightarrow> bool" where
  "is_zero w \<longleftrightarrow> float_exponent w = 0 \<and> float_fraction w = 0"

text \<open>\<open>float('nan')\<close>, the value that \<open>json.loads\<close> gives for the token \<open>NaN\<close>.\<close>

definition float_nan :: "64 word" where
  "float_nan = push_bit 51 4095"

text \<open>
  \<open>x == y\<close> on floats: a NaN is equal to nothing, the two zeros are equal, and otherwise
  equal floats have equal bits.
\<close>

definition float_eq :: "64 word \<Rightarrow> 64 word \<Rightarrow> bool" where
  "float_eq x y \<longleftrightarrow> \<not> is_nan x \<and> \<not> is_nan y \<and> (x = y \<or> (is_zero x \<and> is_zero y))"

text \<open>
  \<open>i == x\<close> for an integer and a float compares the exact values: a finite double with
  biased exponent \<open>e\<close> and significand \<open>m\<close> is \<open>\<plusminus> m * 2 ^ (max e 1 - 1075)\<close>.
\<close>

definition int_eq_float :: "int \<Rightarrow> 64 word \<Rightarrow> bool" where
  "int_eq_float i x \<longleftrightarrow>
     float_exponent x \<noteq> 2047 \<and>
     (let e = max (float_exponent x) 1;
          m = int (if float_exponent x = 0 then float_fraction x
                   else 2 ^ 52 + float_fraction x);
          v = (if float_sign x then - m else m)
      in if 1075 \<le> e then i = v * 2 ^ (e - 1075) else i * 2 ^ (1075 - e) = v)"

text \<open>Numbers compare across the types \<open>bool\<close>, \<open>int\<close> and \<open>float\<close>; \<open>True\<close> is \<open>1\<close>.\<close>

datatype pynum = NumInt int | NumFloat "64 word"

fun num_eq :: "pynum \<Rightarrow> pynum \<Rightarrow> bool" where
  "num_eq (NumInt i) (NumInt j) = (i = j)"
| "num_eq (NumInt i) (NumFloat y) = int_eq_float i y"
| "num_eq (NumFloat x) (NumInt j) = int_eq_float j x"
| "num_eq (NumFloat x) (NumFloat y) = float_eq x y"

fun key_num :: "pykey \<Rightarrow> pynum option" where
  "key_num (KInt i) = Some (NumInt i)"
| "key_num (KFloat x) = Some (NumFloat x)"
| "key_num (KBool b) = Some (NumInt (if b then 1 else 0))"
| "key_num (KStr s) = None"
| "key_num KNone = None"

fun val_num :: "pyval \<Rightarrow> pynum option" where
  "val_num (PyInt i) = Some (NumInt i)"
| "val_num (PyFloat x) = Some (NumFloat x)"
| "val_num (PyBool b) = Some (NumInt (if b then 1 else 0))"
| "val_num v = None"

text \<open>
  \<open>k == k'\<close> on keys, and the lookup of a key in a dictionary.  Values have no identity
  here, so a NaN key is never found.
\<close>

fun key_eq :: "pykey \<Rightarrow> pykey \<Rightarrow> bool" where
  "key_eq (KStr s) k = (k = KStr s)"
| "key_eq KNone k = (k = KNone)"
| "key_eq k k' =
     (case (key_num k, key_num k') of (Some m, Some n) \<Rightarrow> num_eq m n | _ \<Rightarrow> False)"

fun lookup_key :: "pykey \<Rightarrow> (pykey \<times> 'a) list \<Rightarrow> 'a option" where
  "lookup_key k [] = None"
| "lookup_key k ((k', v) # kvs) = (if key_eq k k' then Some v else lookup_key k kvs)"

text \<open>
  \<open>a == b\<close> on values.  Lists and tuples are equal to sequences of their own kind with
  equal elements; dictionaries are equal when they have the same number of keys and every
  key of the first is a key of the second with an equal value, whatever the order; a
  string is not equal to bytes; the values read back and the values stored are distinct
  objects, so a NaN is not equal to a NaN inside a container either.
\<close>

fun py_eq :: "pyval \<Rightarrow> pyval \<Rightarrow> bool"
  and py_eq_list :: "pyval list \<Rightarrow> pyval list \<Rightarrow> bool"
  and py_eq_items :: "(pykey \<times> pyval) list \<Rightarrow> (pykey \<times> pyval) list \<Rightarrow> bool"
where
  "py_eq PyNone b = (b = PyNone)"
| "py_eq (PyBool x) b =
     (case val_num b of Some n \<Rightarrow> num_eq (NumInt (if x then 1 else 0)) n | None \<Rightarrow> False)"
| "py_eq (PyInt i) b = (case val_num b of Some n \<Rightarrow> num_eq (NumInt i) n | None \<Rightarrow> False)"
| "py_eq (PyFloat x) b = (case val_num b of Some n \<Rightarrow> num_eq (NumFloat x) n | None \<Rightarrow> False)"
| "py_eq (PyStr s) b = (b = PyStr s)"
| "py_eq (PyBytes s) b = (b = PyBytes s)"
| "py_eq (PyList xs) b = (case b of PyList ys \<Rightarrow> py_eq_list xs ys | _ \<Rightarrow> False)"
| "py_eq (PyTuple xs) b = (case b of PyTuple ys \<Rightarrow> py_eq_list xs ys | _ \<Rightarrow> False)"
| "py_eq (PyDict kvs) b =
     (case b of
        PyDict kvs' \<Rightarrow> length kvs = length kvs' \<and> py_eq_items kvs kvs'
      | _ \<Rightarrow> False)"
| "py_eq_list [] ys = (ys = [])"
| "py_eq_list (x # xs) ys =
     (case ys of [] \<Rightarrow> False | y # ys' \<Rightarrow> py_eq x y \<and> py_eq_list xs ys')"
| "py_eq_items [] kvs' = True"
| "py_eq_items ((k, v) # kvs) kvs' =
     ((case lookup_key k kvs' of None \<Rightarrow> False | Some w \<Rightarrow> py_eq v w)
      \<and> py_eq_items kvs kvs')"

text \<open>
  A JSON document.  The text that \<open>json.dumps\<close> writes and \<open>json.loads\<close> reads is
  represented by the document it denotes: an integer literal by the integer, the literal
  of a float (\<open>repr\<close>, or \<open>Infinity\<close> and \<open>-Infinity\<close>) by the double that \<open>float\<close> reads
  from it, which is the double it was written for, and \<open>NaN\<close> by a token of its own.
\<close>

datatype json =
    JNull
  | JBool bool
  | JNumber int
  | JFloat "64 word"
  | JNaN
  | JString string
  | JArray "json list"
  | JObject "(string \<times> json) list"

datatype profile_error = JsonTypeError | KeyError string

text \<open>The decimal numeral of an integer, as \<open>json.dumps\<close> writes an integer key.\<close>

function decimal :: "nat \<Rightarrow> string" where
  "decimal n = (if n < 10 then [char_of (48 + n)] else decimal (n div 10) @ [char_of (48 + n mod 10)])"
  by pat_completeness auto
termination
  by (relation "measure id") auto

definition str_of_int :: "int \<Rightarrow> string" where
  "str_of_int i = (if i < 0 then CHR ''-'' # decimal (nat (- i)) else decimal (nat i))"

text \<open>
  The name that \<open>json.dumps\<close> writes for a key.  \<open>floatstr\<close>, the literal of a float, is a
  parameter.
\<close>

fun dumps_key :: "(64 word \<Rightarrow> string) \<Rightarrow> pykey \<Rightarrow> string" where
  "dumps_key floatstr (KStr s) = s"
| "dumps_key floatstr (KInt i) = str_of_int i"
| "dumps_key floatstr (KFloat x) = floatstr x"
| "dumps_key floatstr (KBool b) = (if b then ''true'' else ''false'')"
| "dumps_key floatstr KNone = ''null''"

fun json_dumps :: "(64 word \<Rightarrow> string) \<Rightarrow> pyval \<Rightarrow> profile_error + json"
  and json_dumps_list :: "(64 word \<Rightarrow> string) \<Rightarrow> pyval list \<Rightarrow> profile_error + json list"
  and json_dumps_items ::
    "(64 word \<Rightarrow> string) \<Rightarrow> (pykey \<times> pyval) list \<Rightarrow> profile_error + (string \<times> json) list"
where
  "json_dumps floatstr PyNone = Inr JNull"
| "json_dumps floatstr (PyBool b) = Inr (JBool b)"
| "json_dumps floatstr (PyInt i) = Inr (JNumber i)"
| "json_dumps floatstr (PyFloat x) = Inr (if is_nan x then JNaN else JFloat x)"
| "json_dumps floatstr (PyStr s) = Inr (JString s)"
| "json_dumps floatstr (PyBytes b) = Inl JsonTypeError"
| "json_dumps floatstr (PyList xs) =
     (case json_dumps_list floatstr xs of Inl e \<Rightarrow> Inl e | Inr js \<Rightarrow> Inr (JArray js))"
| "json_dumps floatstr (PyTuple xs) =
     (case json_dumps_list floatstr xs of Inl e \<Rightarrow> Inl e | Inr js \<Rightarrow> Inr (JArray js))"
| "json_dumps floatstr (PyDict kvs) =
     (case json_dumps_items floatstr kvs of Inl e \<Rightarrow> Inl e | Inr js \<Rightarrow> Inr (JObject js))"
| "json_dumps_list floatstr [] = Inr []"
| "json_dumps_list floatstr (x # xs) =
     (case json_dumps floatstr x of
        Inl e \<Rightarrow> Inl e
      | Inr j \<Rightarrow>
          (case json_dumps_list floatstr xs of Inl e \<Rightarrow> Inl e | Inr js \<Rightarrow> Inr (j # js)))"
| "json_dumps_items floatstr [] = Inr []"
| "json_dumps_items floatstr ((k, v) # kvs) =
     (case json_dumps floatstr v of
        Inl e \<Rightarrow> Inl e
      | Inr j \<Rightarrow>
          (case json_dumps_items floatstr kvs of
             Inl e \<Rightarrow> Inl e
           | Inr js \<Rightarrow> Inr ((dumps_key floatstr k, j) # js)))"

text \<open>
  \<open>json.loads\<close> builds a list for an array and a \<open>dict\<close> for an object; a name that
  occurs again in an object replaces the value stored for it.
\<close>

fun json_loads :: "json \<Rightarrow> pyval"
  and json_loads_list :: "json list \<Rightarrow> pyval list"
  and json_loads_items :: "(string \<times> json) list \<Rightarrow> (pykey \<times> pyval) list \<Rightarrow> (pykey \<times> pyval) list"
where
  "json_loads JNull = PyNone"
| "json_loads (JBool b) = PyBool b"
| "json_loads (JNumber i) = PyInt i"
| "json_loads (JFloat x) = PyFloat x"
| "json_loads JNaN = PyFloat float_nan"
| "json_loads (JString s) = PyStr s"
| "json_loads (JArray js) = PyList (json_loads_list js)"
| "json_loads (JObject kvs) = PyDict (json_loads_items kvs [])"
| "json_loads_list [] = []"
| "json_loads_list (j # js) = json_loads j # json_loads_list js"
| "json_loads_items [] d = d"
| "json_loads_items ((k, j) # kvs) d = json_loads_items kvs (AList.update (KStr k) (json_loads j) d)"

text \<open>
  The table \<open>profiles (id INTEGER PRIMARY KEY, name TEXT NOT NULL UNIQUE, data BLOB)\<close>, its
  rows in the order of their insertion.
\<close>

record profile_row =
  row_id :: nat
  row_name :: string
  row_data :: json

type_synonym profiles = "profile_row list"

definition next_rowid :: "profiles \<Rightarrow> nat" where
  "next_rowid db = Suc (foldr max (map row_id db) 0)"

text \<open>
  \<open>SELECT name FROM profiles\<close> has no \<open>ORDER BY\<close>; \<open>sqlite\<close> answers it from the index
  that the \<open>UNIQUE\<close> column has, so the names come sorted.
\<close>

definition iter_profiles :: "profiles \<Rightarrow> string list" where
  "iter_profiles db = sort (map row_name db)"

definition getitem :: "profiles \<Rightarrow> string \<Rightarrow> profile_error + pyval" where
  "getitem db name =
     (case find (\<lambda>r. row_name r = name) db of
        None \<Rightarrow> Inl (KeyError name)
      | Some r \<Rightarrow> Inr (json_loads (row_data r)))"

definition setitem ::
  "(64 word \<Rightarrow> string) \<Rightarrow> profiles \<Rightarrow> string \<Rightarrow> pyval \<Rightarrow> profile_error + profiles" where
  "setitem floatstr db name v =
     (case json_dumps floatstr v of
        Inl e \<Rightarrow> Inl e
      | Inr j \<Rightarrow>
          Inr (filter (\<lambda>r. row_name r \<noteq> name) db
               @ [\<lparr>row_id = next_rowid db, row_name = name, row_data = j\<rparr>]))"

definition delitem :: "profiles \<Rightarrow> string \<Rightarrow> profiles" where
  "delitem db name = filter (\<lambda>r. row_name r \<noteq> name) db"

text \<open>
  The values that come back as they went in: \<open>None\<close>, booleans, integers, floats other
  than NaN, strings, lists of such values, and dictionaries from distinct strings to such
  values.  These are the values that \<open>json.dumps\<close> accepts and that hold no tuple, no
  key other than a string and no NaN.
\<close>

fun json_native :: "pyval \<Rightarrow> bool"
  and json_native_list :: "pyval list \<Rightarrow> bool"
  and json_native_items :: "(pykey \<times> pyval) list \<Rightarrow> bool"
where
  "json_native PyNone = True"
| "json_native (PyBool b) = True"
| "json_native (PyInt i) = True"
| "json_native (PyFloat x) = (\<not> is_nan x)"
| "json_native (PyStr s) = True"
| "json_native (PyBytes b) = False"
| "json_native (PyList xs) = json_native_list xs"
| "json_native (PyTuple xs) = False"
| "json_native (PyDict kvs) = (distinct (map fst kvs) \<and> json_native_items kvs)"
| "json_native_list [] = True"
| "json_native_list (x # xs) = (json_native x \<and> json_native_list xs)"
| "json_native_items [] = True"
| "json_native_items ((k, v) # kvs) =
     ((case k of KStr s \<Rightarrow> True | _ \<Rightarrow> False) \<and> json_native v \<and> json_native_items kvs)"

text \<open>A literal for floats that knows \<open>1.5\<close>, for examples.\<close>

definition example_floatstr :: "64 word \<Rightarrow> string" where
  "example_floatstr x = (if x = 0x3FF8000000000000 then ''1.5'' else ''0.0'')"

section \<open>VLAN form (maasserver/forms_vlan.py, exercised by tests/test_forms_vlan.py)\<close>

text \<open>
  Modelled from the spec: \<open>VLANForm\<close> (\<open>maasserver.forms_vlan\<close>) is not among the sources; only
  its tests are.  The update of a VLAN follows the spec's section on the VLAN form:
  omitted fields retain their values; a rack that is set must be attached to the VLAN;
  clearing \<open>primary_rack\<close> while a \<open>secondary_rack\<close> is set promotes the secondary and
  clears the secondary slot; setting \<open>primary_rack\<close> to the rack held as secondary does
  the same; setting \<open>secondary_rack\<close> to the rack held as primary, or both to one rack,
  fails; \<open>dhcp_on = true\<close> needs a primary rack (set already, or by this request) and a
  subnet of the VLAN with a configured address range.
\<close>

datatype 'a field = Omitted | Blank | Submitted 'a

record vlan =
  vlan_vid :: nat
  vlan_name :: string
  vlan_mtu :: nat
  primary_rack :: "string option"
  secondary_rack :: "string option"
  dhcp_on :: bool

text \<open>What the form reads besides the VLAN: the racks attached to it and its subnets.\<close>

record vlan_context =
  racks_on_vlan :: "string list"
  has_subnet_with_range :: bool

record vlan_form_data =
  data_name :: "string field"
  data_vid :: "nat field"
  data_mtu :: "nat field"
  data_primary_rack :: "string field"
  data_secondary_rack :: "string field"
  data_dhcp_on :: "bool field"

datatype vlan_form_error =
    RackNotOnVLAN string
  | VidOutOfRange
  | SameRackTwice
  | DhcpNeedsPrimaryRack
  | DhcpNeedsSubnetWithRange

definition retained :: "'a field \<Rightarrow> 'a \<Rightarrow> 'a" where
  "retained f current = (case f of Submitted x \<Rightarrow> x | _ \<Rightarrow> current)"

definition rack_on_vlan :: "vlan_context \<Rightarrow> string field \<Rightarrow> bool" where
  "rack_on_vlan ctx f = (case f of Submitted r \<Rightarrow> r \<in> set (racks_on_vlan ctx) | _ \<Rightarrow> True)"

definition cleaned_racks :: "vlan \<Rightarrow> vlan_form_data \<Rightarrow> string option \<times> string option" where
  "cleaned_racks instance d =
     (let secondary = (case data_secondary_rack d of
                         Omitted \<Rightarrow> secondary_rack instance
                       | Blank \<Rightarrow> None
                       | Submitted r \<Rightarrow> Some r)
      in case data_primary_rack d of
           Omitted \<Rightarrow> (primary_rack instance, secondary)
         | Blank \<Rightarrow>
             (case secondary_rack instance of
                Some r2 \<Rightarrow> (Some r2, None)
              | None \<Rightarrow> (None, secondary))
         | Submitted r \<Rightarrow>
             if secondary_rack instance = Some r then (Some r, None) else (Some r, secondary))"

definition vlan_form_update ::
  "vlan_context \<Rightarrow> vlan \<Rightarrow> vlan_form_data \<Rightarrow> vlan_form_error + vlan" where
  "vlan_form_update ctx instance d =
     (if \<not> rack_on_vlan ctx (data_primary_rack d)
      then Inl (RackNotOnVLAN (retained (data_primary_rack d) []))
      else if \<not> rack_on_vlan ctx (data_secondary_rack d)
      then Inl (RackNotOnVLAN (retained (data_secondary_rack d) []))
      else if (case data_vid d of Submitted vid \<Rightarrow> vid > 4095 | _ \<Rightarrow> False)
      then Inl VidOutOfRange
      else if (\<exists>r. data_secondary_rack d = Submitted r
                 \<and> (data_primary_rack d = Submitted r
                      \<or> (data_primary_rack d = Omitted \<and> primary_rack instance = Some r)))
      then Inl SameRackTwice
      else
        let (primary, secondary) = cleaned_racks instance d;
            dhcp = retained (data_dhcp_on d) (dhcp_on instance)
        in if data_dhcp_on d = Submitted True \<and> primary = None then Inl DhcpNeedsPrimaryRack
           else if data_dhcp_on d = Submitted True \<and> \<not> has_subnet_with_range ctx
           then Inl DhcpNeedsSubnetWithRange
           else Inr (instance\<lparr>vlan_vid := retained (data_vid d) (vlan_vid instance),
                               vlan_name := retained (data_name d) (vlan_name instance),
                               vlan_mtu := retained (data_mtu d) (vlan_mtu instance),
                               primary_rack := primary,
                               secondary_rack := secondary,
                               dhcp_on := dhcp\<rparr>))"

definition no_data :: vlan_form_data where
  "no_data =
     \<lparr>data_name = Omitted, data_vid = Omitted, data_mtu = Omitted,
      data_primary_rack = Omitted, data_secondary_rack = Omitted, data_dhcp_on = Omitted\<rparr>"

section \<open>Region controller service (maasserver/region_controller.py, exercised by tests/test_region_controller.py)\<close>

text \<open>
  Modelled from the spec: \<open>RegionControllerService\<close> (\<open>maasserver.region_controller\<close>) is
  not among the sources; only its tests are.  The state machine is the one of the spec's section
  on the service: two dirty flags set by the callbacks of the channels \<open>sys_dns\<close> and
  \<open>sys_proxy\<close>; a repeating timer that starts when a flag is marked (a no-op when it is
  running already) and drives one processing pass per tick; a pass that, for each dirty
  flag, clears it, runs the regeneration and logs its success or failure; and ``if, after
  a pass, neither flag is dirty, the timer stops itself and any tracked in-flight
  deferred reference is cleared to none''.  The regeneration routines are counted, and
  whether each succeeds is an input of the pass.
\<close>

datatype callback = MarkDNSForUpdate | MarkProxyForUpdate

datatype deferred = Deferred

record service =
  needsDNSUpdate :: bool
  needsProxyUpdate :: bool
  processing_running :: bool
  processingDefer :: "deferred option"
  registered :: "(string \<times> callback) list"
  dns_update_all_zones_calls :: nat
  proxy_update_config_calls :: nat
  log_messages :: "string list"

definition RegionControllerService :: service where
  "RegionControllerService =
     \<lparr>needsDNSUpdate = False, needsProxyUpdate = False, processing_running = False,
      processingDefer = None, registered = [],
      dns_update_all_zones_calls = 0, proxy_update_config_calls = 0, log_messages = []\<rparr>"

definition startProcessing :: "service \<Rightarrow> service" where
  "startProcessing s =
     (if processing_running s then s
      else s\<lparr>processing_running := True, processingDefer := Some Deferred\<rparr>)"

definition markDNSForUpdate :: "service \<Rightarrow> service" where
  "markDNSForUpdate s = startProcessing (s\<lparr>needsDNSUpdate := True\<rparr>)"

definition markProxyForUpdate :: "service \<Rightarrow> service" where
  "markProxyForUpdate s = startProcessing (s\<lparr>needsProxyUpdate := True\<rparr>)"

definition startService :: "service \<Rightarrow> service" where
  "startService s =
     markProxyForUpdate
       (markDNSForUpdate
          (s\<lparr>registered := registered s @
               [(''sys_dns'', MarkDNSForUpdate), (''sys_proxy'', MarkProxyForUpdate)]\<rparr>))"

definition stopService :: "service \<Rightarrow> service" where
  "stopService s =
     s\<lparr>registered := filter (\<lambda>r. r \<noteq> (''sys_dns'', MarkDNSForUpdate)
                                \<and> r \<noteq> (''sys_proxy'', MarkProxyForUpdate)) (registered s),
       processing_running := False, processingDefer := None\<rparr>"

definition process_dns :: "bool \<Rightarrow> service \<Rightarrow> service" where
  "process_dns dns_succeeds s =
     (if needsDNSUpdate s
      then s\<lparr>needsDNSUpdate := False,
             dns_update_all_zones_calls := dns_update_all_zones_calls s + 1,
             log_messages := log_messages s @ [if dns_succeeds then ''Successfully configured DNS.''
                             else ''Failed configuring DNS.'']\<rparr>
      else s)"

definition process_proxy :: "bool \<Rightarrow> service \<Rightarrow> service" where
  "process_proxy proxy_succeeds s =
     (if needsProxyUpdate s
      then s\<lparr>needsProxyUpdate := False,
             proxy_update_config_calls := proxy_update_config_calls s + 1,
             log_messages := log_messages s @ [if proxy_succeeds then ''Successfully configured proxy.''
                             else ''Failed configuring proxy.'']\<rparr>
      else s)"

definition process :: "service \<Rightarrow> bool \<times> bool \<Rightarrow> service" where
  "process s outcome =
     (let s1 = process_proxy (snd outcome) (process_dns (fst outcome) s)
      in if \<not> needsDNSUpdate s1 \<and> \<not> needsProxyUpdate s1
         then s1\<lparr>processing_running := False, processingDefer := None\<rparr>
         else s1)"

text \<open>A tick of the timer runs a pass when the timer is running.\<close>

definition tick :: "service \<Rightarrow> bool \<times> bool \<Rightarrow> service" where
  "tick s outcome = (if processing_running s then process s outcome else s)"

section \<open>Properties of the batch partition\<close>

lemma neg_div_ceil:
  fixes c sz :: int
  assumes s: "0 < sz"
  shows "- (- c div sz) = c div sz + (if c mod sz > 0 then 1 else 0)"
proof (cases "c mod sz = 0")
  case True
  then show ?thesis using s zdiv_zminus1_eq_if[of sz c] by simp
next
  case False
  have "0 \<le> c mod sz" using s by simp
  then have "0 < c mod sz" using False by linarith
  then show ?thesis using s False zdiv_zminus1_eq_if[of sz c] by simp
qed

lemma batch_count_ceiling:
  "0 < sz \<Longrightarrow> int (batch_count n sz) = \<lceil>real n / real_of_int sz\<rceil>"
proof -
  assume s: "0 < sz"
  have d: "0 \<le> int n div sz" using s by (simp add: pos_imp_zdiv_nonneg_iff)
  have "\<lceil>real n / real_of_int sz\<rceil> = \<lceil>real_of_int (int n) / real_of_int sz\<rceil>" by simp
  also have "\<dots> = - (- int n div sz)" by (rule ceiling_divide_eq_div)
  also have "\<dots> = int n div sz + (if int n mod sz > 0 then 1 else 0)"
    using s by (rule neg_div_ceil)
  finally show ?thesis using d by (simp add: batch_count_def)
qed

lemma batch_count_le: "0 < sz \<Longrightarrow> batch_count n sz \<le> n"
proof -
  assume s: "0 < sz"
  have d: "0 \<le> int n div sz" using s by (simp add: pos_imp_zdiv_nonneg_iff)
  have m: "0 \<le> int n mod sz" using s by simp
  have "1 \<le> sz" using s by simp
  then have le: "int n div sz * 1 \<le> int n div sz * sz" using d by (rule mult_left_mono)
  have e: "int n div sz * sz + int n mod sz = int n" by simp
  have a: "int n div sz + int n mod sz \<le> int n" using le e by linarith
  have b: "int n mod sz > 0 \<Longrightarrow> int n div sz + 1 \<le> int n" using a by linarith
  have c: "int n div sz \<le> int n" using a m by linarith
  show ?thesis
  proof (cases "int n mod sz > 0")
    case True
    then show ?thesis using b by (simp add: batch_count_def)
  next
    case False
    then show ?thesis using c by (simp add: batch_count_def)
  qed
qed

lemma batch_count_pos: "0 < sz \<Longrightarrow> 0 < n \<Longrightarrow> 0 < batch_count n sz"
proof -
  assume s: "0 < sz" and n: "0 < n"
  have d: "0 \<le> int n div sz" using s by (simp add: pos_imp_zdiv_nonneg_iff)
  have m: "0 \<le> int n mod sz" using s by simp
  have e: "int n div sz * sz + int n mod sz = int n" by simp
  show ?thesis
  proof (cases "int n mod sz > 0")
    case True
    then show ?thesis using d by (simp add: batch_count_def)
  next
    case False
    then have "int n mod sz = 0" using m by linarith
    then have "int n div sz * sz = int n" using e by simp
    then have "int n div sz \<noteq> 0" using n by auto
    then have "0 < int n div sz" using d by linarith
    then show ?thesis using False by (simp add: batch_count_def)
  qed
qed

lemma traverse_all_Inr:
  "(\<And>x. x \<in> set xs \<Longrightarrow> f x = Inr (g x)) \<Longrightarrow> traverse f xs = Inr (map g xs)"
  by (induction xs) auto

lemma gen_batches_strided:
  assumes "0 < sz"
  shows "gen_batches things sz =
    Inr (map (strided things (batch_count (length things) sz))
          [0..<batch_count (length things) sz])"
proof -
  let ?k = "batch_count (length things) sz"
  have g: "gen_batch_slices (int (length things)) sz =
        Inr (map (\<lambda>b. \<lparr>slice_start = b, slice_step = ?k\<rparr>) [0..<?k])"
    using assms by (simp add: gen_batch_slices_def batch_count_def xrange_def Let_def)
  have "traverse (getitem_slice things) (map (\<lambda>b. \<lparr>slice_start = b, slice_step = ?k\<rparr>) [0..<?k])
      = Inr (map (\<lambda>s. strided things ?k (slice_start s))
               (map (\<lambda>b. \<lparr>slice_start = b, slice_step = ?k\<rparr>) [0..<?k]))"
    by (rule traverse_all_Inr) (auto simp: getitem_slice_def strided_def)
  then show ?thesis by (simp add: gen_batches_def g comp_def)
qed

lemma lt_cnt: "0 < k \<Longrightarrow> j < (m + k - 1) div k \<longleftrightarrow> j * k < m" for j k m :: nat
proof -
  assume k: "0 < k"
  have "j < (m + k - 1) div k \<longleftrightarrow> Suc j \<le> (m + k - 1) div k" by auto
  also have "\<dots> \<longleftrightarrow> Suc j * k \<le> m + k - 1" using k by (rule less_eq_div_iff_mult_less_eq)
  also have "\<dots> \<longleftrightarrow> j * k < m" using k by auto
  finally show ?thesis .
qed

lemma set_stride_indices:
  "0 < k \<Longrightarrow> set (stride_indices n k b) = {i. i < n \<and> b \<le> i \<and> i mod k = b mod k}"
proof (intro set_eqI iffI)
  fix i assume k: "0 < k" and "i \<in> set (stride_indices n k b)"
  then obtain j where j: "i = b + j * k" "j < (n - b + k - 1) div k"
    by (auto simp: stride_indices_def)
  have "j * k < n - b" using j(2) lt_cnt[OF k] by blast
  then show "i \<in> {i. i < n \<and> b \<le> i \<and> i mod k = b mod k}" using j(1) by auto
next
  fix i assume k: "0 < k" and "i \<in> {i. i < n \<and> b \<le> i \<and> i mod k = b mod k}"
  then have i: "i < n" "b \<le> i" "i mod k = b mod k" by auto
  have "k dvd i - b" using i(2,3) by (simp add: mod_eq_dvd_iff_nat)
  then obtain j where "i - b = k * j" by (rule dvdE)
  then have j: "i - b = j * k" by (simp add: mult.commute)
  have "j * k < n - b" using j i by linarith
  then have "j < (n - b + k - 1) div k" using lt_cnt[OF k] by blast
  moreover have "i = b + j * k" using j i(2) by linarith
  ultimately show "i \<in> set (stride_indices n k b)" by (auto simp: stride_indices_def)
qed

lemma distinct_stride_indices: "0 < k \<Longrightarrow> distinct (stride_indices n k b)"
  by (auto simp: stride_indices_def distinct_map inj_on_def)

lemma stride_indices_perm:
  assumes k: "0 < k" and kn: "k \<le> n"
  shows "mset (concat (map (stride_indices n k) [0..<k])) = mset [0..<n]"
proof -
  let ?L = "map (stride_indices n k) [0..<k]"
  have mem: "b \<in> set (stride_indices n k b)" if "b < k" for b
    using that k kn by (simp add: set_stride_indices)
  have inj: "inj_on (stride_indices n k) (set [0..<k])"
  proof (rule inj_onI)
    fix a b assume a: "a \<in> set [0..<k]" and b: "b \<in> set [0..<k]"
      and e: "stride_indices n k a = stride_indices n k b"
    have "a \<in> set (stride_indices n k b)" using mem[of a] a e by simp
    moreover have "b \<in> set (stride_indices n k a)" using mem[of b] b e by simp
    ultimately show "a = b" using k by (simp add: set_stride_indices)
  qed
  have d1: "distinct ?L" using inj by (simp add: distinct_map)
  have d2: "\<And>ys. ys \<in> set ?L \<Longrightarrow> distinct ys" using k by (auto simp: distinct_stride_indices)
  have d3: "\<And>ys zs. ys \<in> set ?L \<Longrightarrow> zs \<in> set ?L \<Longrightarrow> ys \<noteq> zs \<Longrightarrow> set ys \<inter> set zs = {}"
  proof -
    fix ys zs assume "ys \<in> set ?L" "zs \<in> set ?L" "ys \<noteq> zs"
    then obtain a b where ab: "a < k" "b < k" "ys = stride_indices n k a"
        "zs = stride_indices n k b" by auto
    have "a \<noteq> b" using ab \<open>ys \<noteq> zs\<close> by auto
    show "set ys \<inter> set zs = {}"
    proof (rule ccontr)
      assume "set ys \<inter> set zs \<noteq> {}"
      then obtain i where "i \<in> set ys" "i \<in> set zs" by auto
      then have "a mod k = b mod k" using ab k by (simp add: set_stride_indices)
      then show False using ab \<open>a \<noteq> b\<close> by simp
    qed
  qed
  have dist: "distinct (concat ?L)" by (rule distinct_concat[OF d1 d2 d3])
  have s: "set (concat ?L) = {0..<n}"
  proof (intro set_eqI iffI)
    fix i assume "i \<in> set (concat ?L)"
    then show "i \<in> {0..<n}" using k by (auto simp: set_stride_indices)
  next
    fix i assume "i \<in> {0..<n}"
    then have "i < n" by simp
    moreover have "i mod k < k" using k by simp
    moreover have "i mod k \<le> i" by simp
    ultimately have "i \<in> set (stride_indices n k (i mod k))" using k
      by (simp add: set_stride_indices)
    then show "i \<in> set (concat ?L)" using \<open>i mod k < k\<close> by auto
  qed
  have "set (concat ?L) = set [0..<n]" using s by simp
  then show ?thesis
    by (rule iffD1[OF set_eq_iff_mset_eq_distinct[OF dist distinct_upt]])
qed

lemma strided_indices: "strided things k b = map ((!) things) (stride_indices (length things) k b)"
  by (simp add: strided_def stride_indices_def)

lemma strided_perm:
  assumes k: "0 < k" and kn: "k \<le> length things"
  shows "mset (concat (map (strided things k) [0..<k])) = mset things"
proof -
  have "concat (map (strided things k) [0..<k])
      = map ((!) things) (concat (map (stride_indices (length things) k) [0..<k]))"
    by (simp add: map_concat strided_indices[abs_def] comp_def)
  then have "mset (concat (map (strided things k) [0..<k]))
      = image_mset ((!) things) (mset (concat (map (stride_indices (length things) k) [0..<k])))"
    by simp
  also have "\<dots> = image_mset ((!) things) (mset [0..<length things])"
    by (simp only: stride_indices_perm[OF k kn])
  also have "\<dots> = mset (map ((!) things) [0..<length things])" by simp
  also have "\<dots> = mset things" by (simp only: map_nth)
  finally show ?thesis .
qed

lemma length_strided_bounds:
  assumes k: "0 < k" and b: "b < k"
  shows "length things div k \<le> length (strided things k b)"
    and "length (strided things k b) \<le> length things div k + 1"
proof -
  let ?n = "length things"
  have "?n div k \<le> (?n - b + k - 1) div k" using b by (intro div_le_mono) auto
  then show "?n div k \<le> length (strided things k b)" by (simp add: strided_def)
  have "(?n - b + k - 1) div k \<le> (?n + k) div k" by (intro div_le_mono) auto
  also have "\<dots> = ?n div k + 1" using k by simp
  finally show "length (strided things k b) \<le> ?n div k + 1" by (simp add: strided_def)
qed

lemma distinct_concat_nth_unique:
  "distinct (concat bs) \<Longrightarrow> i < length bs \<Longrightarrow> j < length bs \<Longrightarrow>
   x \<in> set (bs ! i) \<Longrightarrow> x \<in> set (bs ! j) \<Longrightarrow> i = j"
proof (induction bs arbitrary: i j)
  case Nil
  then show ?case by simp
next
  case (Cons a bs)
  show ?case
  proof (cases i)
    case 0
    then show ?thesis using Cons.prems by (cases j) (auto simp: disjoint_iff dest: nth_mem)
  next
    case (Suc i')
    then show ?thesis using Cons by (cases j) (auto simp: disjoint_iff dest: nth_mem)
  qed
qed

lemma length_strided: "length (strided things k b) = (length things - b + k - 1) div k"
  by (simp add: strided_def)

lemma batch_sizes_250_100:
  "map length (map (strided things (batch_count 250 100)) [0..<batch_count 250 100])
     = [84, 83, 83]" if "length things = 250"
proof -
  have k3: "batch_count 250 100 = 3" by (simp add: batch_count_def)
  have u: "[0..<3] = [0, 1, 2]" by (simp add: upt_rec)
  show ?thesis unfolding k3 u using that by (simp add: length_strided)
qed

text \<open>
  Claim C2.  For every list of \<open>count\<close> things and every batch size greater than zero,
  \<open>gen_batches\<close> returns exactly \<open>ceil(count / size)\<close> batches; the batches together are a
  rearrangement of the input (every element occurrence lies in exactly one batch: when
  the things are pairwise different, each of them is in one batch and in no other); the
  lengths of any two batches differ by at most one; and for 250 things and a batch size
  of 100 there are three batches, of 84, 83 and 83 things.
\<close>

theorem gen_batches_partition:
  assumes "0 < sz"
  shows "\<exists>bs. gen_batches things sz = Inr bs
      \<and> int (length bs) = \<lceil>real (length things) / real_of_int sz\<rceil>
      \<and> mset (concat bs) = mset things
      \<and> (distinct things \<longrightarrow> (\<forall>x\<in>set things. \<exists>!b. b < length bs \<and> x \<in> set (bs ! b)))
      \<and> (\<forall>a\<in>set bs. \<forall>b\<in>set bs. length a \<le> length b + 1)
      \<and> (length things = 250 \<and> sz = 100 \<longrightarrow> map length bs = [84, 83, 83])"
proof -
  define n where "n = length things"
  define k where "k = batch_count n sz"
  define bs where "bs = map (strided things k) [0..<k]"
  have eq: "gen_batches things sz = Inr bs"
    unfolding bs_def k_def n_def using assms by (rule gen_batches_strided)
  have lbs: "length bs = k" by (simp add: bs_def)
  have len: "int (length bs) = \<lceil>real (length things) / real_of_int sz\<rceil>"
    unfolding lbs k_def n_def using assms by (rule batch_count_ceiling)
  have kn: "k \<le> length things" unfolding k_def n_def using assms by (rule batch_count_le)
  have perm: "mset (concat bs) = mset things"
  proof (cases "length things = 0")
    case True
    then have "k = 0" using kn by simp
    then show ?thesis using True by (simp add: bs_def)
  next
    case False
    then have "0 < k" unfolding k_def n_def using assms by (simp add: batch_count_pos)
    then show ?thesis unfolding bs_def using kn by (rule strided_perm)
  qed
  have uniq: "\<forall>x\<in>set things. \<exists>!b. b < length bs \<and> x \<in> set (bs ! b)" if d: "distinct things"
  proof
    fix x assume x: "x \<in> set things"
    have "distinct (concat bs) \<longleftrightarrow> distinct things"
      using perm by (rule mset_eq_imp_distinct_iff)
    then have dc: "distinct (concat bs)" using d by simp
    have "set (concat bs) = set things" using perm by (rule mset_eq_setD)
    then have "x \<in> set (concat bs)" using x by simp
    then obtain ys where ys: "ys \<in> set bs" "x \<in> set ys" by auto
    from ys(1) obtain b where b: "b < length bs" "bs ! b = ys"
      unfolding in_set_conv_nth by blast
    show "\<exists>!b. b < length bs \<and> x \<in> set (bs ! b)"
    proof (rule ex1I[of _ b])
      show "b < length bs \<and> x \<in> set (bs ! b)" using b ys(2) by simp
    next
      fix c assume c: "c < length bs \<and> x \<in> set (bs ! c)"
      have "x \<in> set (bs ! b)" using b ys(2) by simp
      then show "c = b" using distinct_concat_nth_unique[OF dc, of c b x] b(1) c by simp
    qed
  qed
  have sizes: "\<forall>a\<in>set bs. \<forall>b\<in>set bs. length a \<le> length b + 1"
  proof (intro ballI)
    fix a b assume "a \<in> set bs" "b \<in> set bs"
    then obtain i j where ij: "i < k" "j < k" "a = strided things k i" "b = strided things k j"
      by (auto simp: bs_def)
    then have k: "0 < k" by simp
    have "length a \<le> length things div k + 1"
      using length_strided_bounds(2)[OF k ij(1)] ij(3) by simp
    moreover have "length things div k \<le> length b"
      using length_strided_bounds(1)[OF k ij(2)] ij(4) by simp
    ultimately show "length a \<le> length b + 1" by linarith
  qed
  have ex: "map length bs = [84, 83, 83]" if "length things = 250 \<and> sz = 100"
    unfolding bs_def k_def n_def using that batch_sizes_250_100[of things] by simp
  show ?thesis
  proof (intro exI[of _ bs] conjI impI)
    show "gen_batches things sz = Inr bs" by (rule eq)
    show "int (length bs) = \<lceil>real (length things) / real_of_int sz\<rceil>" by (rule len)
    show "mset (concat bs) = mset things" by (rule perm)
    show "\<forall>x\<in>set things. \<exists>!b. b < length bs \<and> x \<in> set (bs ! b)" if "distinct things"
      using that by (rule uniq)
    show "\<forall>a\<in>set bs. \<forall>b\<in>set bs. length a \<le> length b + 1" by (rule sizes)
    show "map length bs = [84, 83, 83]" if "length things = 250 \<and> sz = 100"
      using that by (rule ex)
  qed
qed

theorem gen_batches_partition_witness:
  "(0::int) < 100 \<and> distinct [0..<250] \<and> length [0..<250] = 250
   \<and> (\<exists>bs. gen_batches [0..<250] 100 = Inr bs
        \<and> int (length bs) = \<lceil>real (length [0..<250]) / real_of_int 100\<rceil>
        \<and> mset (concat bs) = mset [0..<250]
        \<and> (\<forall>x\<in>set [0..<250]. \<exists>!b. b < length bs \<and> x \<in> set (bs ! b))
        \<and> (\<forall>a\<in>set bs. \<forall>b\<in>set bs. length a \<le> length b + 1)
        \<and> map length bs = [84, 83, 83])"
proof -
  have h: "(0::int) < 100" by simp
  have d: "distinct [0..<250]" by simp
  have l: "length [0..<250] = 250" by simp
  from gen_batches_partition[OF h, of "[0..<250]"]
  obtain bs where bs: "gen_batches [0..<250] 100 = Inr bs
      \<and> int (length bs) = \<lceil>real (length [0..<250]) / real_of_int 100\<rceil>
      \<and> mset (concat bs) = mset [0..<250]
      \<and> (distinct [0..<250] \<longrightarrow> (\<forall>x\<in>set [0..<250]. \<exists>!b. b < length bs \<and> x \<in> set (bs ! b)))
      \<and> (\<forall>a\<in>set bs. \<forall>b\<in>set bs. length a \<le> length b + 1)
      \<and> (length [0..<250] = 250 \<and> (100::int) = 100 \<longrightarrow> map length bs = [84, 83, 83])" ..
  note c1 = bs[THEN conjunct1] and r1 = bs[THEN conjunct2]
  note c2 = r1[THEN conjunct1] and r2 = r1[THEN conjunct2]
  note c3 = r2[THEN conjunct1] and r3 = r2[THEN conjunct2]
  note c4 = r3[THEN conjunct1] and r4 = r3[THEN conjunct2]
  note c5 = r4[THEN conjunct1] and c6 = r4[THEN conjunct2]
  have u: "\<forall>x\<in>set [0..<250]. \<exists>!b. b < length bs \<and> x \<in> set (bs ! b)"
    using c4 d by (rule mp)
  have m: "map length bs = [84, 83, 83]" using c6 l by simp
  have e: "\<exists>bs. gen_batches [0..<250] 100 = Inr bs
        \<and> int (length bs) = \<lceil>real (length [0..<250]) / real_of_int 100\<rceil>
        \<and> mset (concat bs) = mset [0..<250]
        \<and> (\<forall>x\<in>set [0..<250]. \<exists>!b. b < length bs \<and> x \<in> set (bs ! b))
        \<and> (\<forall>a\<in>set bs. \<forall>b\<in>set bs. length a \<le> length b + 1)
        \<and> map length bs = [84, 83, 83]"
    by (rule exI[of _ bs]) (intro conjI c1 c2 c3 u c5 m)
  show ?thesis by (intro conjI h d l e)
qed

lemma gen_batches_example:
  "gen_batches [10, 20, 30, 40, 50 :: nat] 2 = Inr [[10, 40], [20, 50], [30]]"
  by code_simp

text \<open>
  Claim C10.  When the list is not empty and no longer than the batch size,
  \<open>gen_batches\<close> returns one batch, the list itself in its order; for the empty list it
  returns no batch (the batch size being other than zero, where \<open>divmod\<close> raises).
\<close>

theorem gen_batches_degenerate:
  "(0 < length things \<and> int (length things) \<le> sz \<longrightarrow> gen_batches things sz = Inr [things])
   \<and> (sz \<noteq> 0 \<longrightarrow> gen_batches ([] :: 'a list) sz = Inr [])"
proof (intro conjI impI)
  assume a: "0 < length things \<and> int (length things) \<le> sz"
  then have s: "0 < sz" by linarith
  have k: "batch_count (length things) sz = 1"
  proof (cases "int (length things) = sz")
    case True
    then show ?thesis using s by (simp add: batch_count_def)
  next
    case False
    then have "int (length things) < sz" using a by linarith
    then show ?thesis using a by (simp add: batch_count_def)
  qed
  have "strided things 1 0 = things" by (simp add: strided_def map_nth)
  then show "gen_batches things sz = Inr [things]"
    using gen_batches_strided[OF s, of things] by (simp add: k)
next
  assume "sz \<noteq> 0"
  then show "gen_batches ([] :: 'a list) sz = Inr []"
    by (simp add: gen_batches_def gen_batch_slices_def xrange_def)
qed

theorem gen_batches_degenerate_witness:
  "(0 < length [7, 8, 9 :: nat] \<and> int (length [7, 8, 9 :: nat]) \<le> 100
      \<and> gen_batches [7, 8, 9 :: nat] 100 = Inr [[7, 8, 9]])
   \<and> ((100::int) \<noteq> 0 \<and> gen_batches ([] :: nat list) 100 = Inr [])"
  using gen_batches_degenerate[of "[7, 8, 9 :: nat]" 100] by simp

section \<open>Properties of the security module\<close>

lemma calculate_digest_hmac:
  "block_size sha = 64 \<Longrightarrow>
   calculate_digest sha secret message salt
     = hmac_rfc2104 (hash_function sha) secret (message @ salt)"
  by (simp add: calculate_digest_def hmac_rfc2104_def HMAC_def hmac_update_def
      hmac_digest_def hash_update_def hash_digest_def hash_new_def ljust_def Let_def)

lemma calculate_digest_append:
  "calculate_digest sha secret message salt
     = calculate_digest sha secret (message @ salt) []"
  by (simp add: calculate_digest_def HMAC_def hmac_update_def
      hmac_digest_def hash_update_def hash_digest_def hash_new_def Let_def)

text \<open>
  Claim C9.  For all byte strings, \<open>calculate_digest(secret, message, salt)\<close> equals the
  digest with the concatenation as message and an empty salt; any two splits of the same
  concatenated bytes give the same digest; and, \<open>sha256\<close> being a hash with 64-byte
  blocks, the digest is the HMAC of RFC 2104 with that hash, keyed by \<open>secret\<close>, of
  \<open>message\<close> followed by \<open>salt\<close>.  As a function of its arguments it is deterministic.
\<close>

theorem calculate_digest_concat:
  "calculate_digest sha secret message salt
     = calculate_digest sha secret (message @ salt) []
   \<and> (m1 @ s1 = m2 @ s2 \<longrightarrow>
        calculate_digest sha secret m1 s1 = calculate_digest sha secret m2 s2)
   \<and> (block_size sha = 64 \<longrightarrow>
        calculate_digest sha secret message salt
          = hmac_rfc2104 (hash_function sha) secret (message @ salt))"
proof (intro conjI impI)
  show "calculate_digest sha secret message salt
     = calculate_digest sha secret (message @ salt) []"
    by (rule calculate_digest_append)
next
  assume "m1 @ s1 = m2 @ s2"
  then show "calculate_digest sha secret m1 s1 = calculate_digest sha secret m2 s2"
    using calculate_digest_append[of sha secret m1 s1]
      calculate_digest_append[of sha secret m2 s2] by simp
next
  assume "block_size sha = 64"
  then show "calculate_digest sha secret message salt
          = hmac_rfc2104 (hash_function sha) secret (message @ salt)"
    by (rule calculate_digest_hmac)
qed

theorem calculate_digest_concat_witness:
  "[1, 2 :: byte] @ [3] = [1] @ [2, 3]
   \<and> calculate_digest example_hash [9] [1, 2] [3] = calculate_digest example_hash [9] [1] [2, 3]
   \<and> block_size example_hash = 64
   \<and> calculate_digest example_hash [9] [1, 2] [3]
       = hmac_rfc2104 (hash_function example_hash) [9] ([1, 2] @ [3])"
proof -
  have h: "[1, 2 :: byte] @ [3] = [1] @ [2, 3]" by simp
  have b: "block_size example_hash = 64" by (simp add: example_hash_def)
  note t = calculate_digest_concat[where sha = example_hash and secret = "[9]"
      and message = "[1, 2]" and salt = "[3]" and ?m1.0 = "[1, 2]" and ?s1.0 = "[3]"
      and ?m2.0 = "[1]" and ?s2.0 = "[2, 3]"]
  show ?thesis using h b t by blast
qed

lemma calculate_digest_example: "calculate_digest example_hash [9] [1, 2] [3] = [136]"
  by code_simp

lemma hexdigit_table:
  "list_all (\<lambda>n. unhex (hexdigit n) = Some n \<and> hexdigit n < 0x80
       \<and> \<not> is_ascii_whitespace (hexdigit n)) [0..<16]"
  by code_simp

lemma hexdigit_props:
  assumes "n < 16"
  shows "unhex (hexdigit n) = Some n"
    and "hexdigit n < 0x80"
    and "\<not> is_ascii_whitespace (hexdigit n)"
proof -
  have "n \<in> set [0..<16]" using assms by simp
  then have "unhex (hexdigit n) = Some n \<and> hexdigit n < 0x80
       \<and> \<not> is_ascii_whitespace (hexdigit n)"
    using hexdigit_table unfolding list_all_iff by blast
  then show "unhex (hexdigit n) = Some n" and "hexdigit n < 0x80"
    and "\<not> is_ascii_whitespace (hexdigit n)" by simp_all
qed

lemma byte_nibbles: "unat (x :: byte) div 16 < 16" "unat (x :: byte) mod 16 < 16"
proof -
  have "unat x < 256" using unsigned_less[of x] by simp
  then show "unat x div 16 < 16" by simp
  show "unat x mod 16 < 16" by simp
qed

lemma a2b_hex_b2a_hex: "a2b_hex (b2a_hex b) = Inr b"
proof (induction b)
  case Nil
  then show ?case by (simp add: b2a_hex_def)
next
  case (Cons x b)
  have n: "16 * (unat x div 16) + unat x mod 16 = unat x" by simp
  have "b2a_hex (x # b) = hexdigit (unat x div 16) # hexdigit (unat x mod 16) # b2a_hex b"
    by (simp add: b2a_hex_def)
  then show ?case using Cons.IH
    by (simp add: hexdigit_props(1) byte_nibbles n)
qed

lemma b2a_hex_ascii: "x \<in> set (b2a_hex b) \<Longrightarrow> x < 0x80"
  by (auto simp: b2a_hex_def hexdigit_props(2) byte_nibbles)

lemma b2a_hex_no_whitespace: "x \<in> set (b2a_hex b) \<Longrightarrow> \<not> is_ascii_whitespace x"
  by (auto simp: b2a_hex_def hexdigit_props(3) byte_nibbles)

lemma dropWhile_none: "(\<And>x. x \<in> set xs \<Longrightarrow> \<not> P x) \<Longrightarrow> dropWhile P xs = xs"
  by (cases xs) auto

lemma strip_b2a_hex: "strip (b2a_hex b) = b2a_hex b"
proof -
  have 1: "dropWhile is_ascii_whitespace (b2a_hex b) = b2a_hex b"
    by (rule dropWhile_none) (rule b2a_hex_no_whitespace)
  have 2: "dropWhile is_ascii_whitespace (rev (b2a_hex b)) = rev (b2a_hex b)"
    by (rule dropWhile_none) (simp add: b2a_hex_no_whitespace)
  show ?thesis by (simp add: strip_def 1 2)
qed

lemma to_hex_total: "to_hex b = Inr (map (\<lambda>x. char_of (unat x)) (b2a_hex b))"
  using b2a_hex_ascii[of _ b] by (auto simp: to_hex_def decode_ascii_def)

lemma encode_ascii_hex:
  "encode_ascii (map (\<lambda>x. char_of (unat x)) (b2a_hex b)) = Inr (b2a_hex b)"
proof -
  have lt: "unat x < 128" if "x \<in> set (b2a_hex b)" for x
    using b2a_hex_ascii[OF that] by (simp add: word_less_nat_alt)
  have a: "\<forall>c\<in>set (map (\<lambda>x. char_of (unat x)) (b2a_hex b)). (of_char c :: nat) < 0x80"
  proof
    fix c assume "c \<in> set (map (\<lambda>x. char_of (unat x)) (b2a_hex b))"
    then obtain x where x: "x \<in> set (b2a_hex b)" "c = char_of (unat x)" by auto
    have "unat x mod 256 = unat x" using lt[OF x(1)] by simp
    then show "(of_char c :: nat) < 0x80" using lt[OF x(1)] x(2) by simp
  qed
  have "map (\<lambda>c. of_nat (of_char c)) (map (\<lambda>x. char_of (unat x)) (b2a_hex b)) = b2a_hex b"
  proof -
    have "(of_nat (of_char (char_of (unat x))) :: byte) = x" if "x \<in> set (b2a_hex b)" for x
      using lt[OF that] by simp
    then show ?thesis by (simp add: map_idI)
  qed
  then show ?thesis using a by (simp add: encode_ascii_def)
qed

lemma to_bin_to_hex: "to_hex b = Inr u \<Longrightarrow> to_bin u = Inr b"
  by (auto simp: to_hex_total to_bin_def encode_ascii_hex strip_b2a_hex a2b_hex_b2a_hex)

text \<open>
  Claim C4.  After \<open>set_shared_secret_on_filesystem(s)\<close> has returned, for any byte
  string \<open>s\<close>, \<open>get_shared_secret_from_filesystem()\<close> returns exactly \<open>s\<close>; the write
  returns whenever the secret path is not one that fails on opening.  When there is no
  secret file the read returns no value, and any other I/O failure of the read is
  raised to the caller.
\<close>

theorem shared_secret_roundtrip:
  "(set_shared_secret_on_filesystem s fs = Inr fs'
      \<longrightarrow> get_shared_secret_from_filesystem fs' = Inr (Some s))
   \<and> ((\<forall>e. fs get_shared_secret_filesystem_path \<noteq> Some (Broken e))
      \<longrightarrow> (\<exists>fs1. set_shared_secret_on_filesystem s fs = Inr fs1))
   \<and> (fs get_shared_secret_filesystem_path = None
      \<longrightarrow> get_shared_secret_from_filesystem fs = Inr None)
   \<and> (fs get_shared_secret_filesystem_path = Some (Broken e) \<and> e \<noteq> ENOENT
      \<longrightarrow> get_shared_secret_from_filesystem fs = Inl (IOError e))"
proof (intro conjI impI)
  assume a: "set_shared_secret_on_filesystem s fs = Inr fs'"
  obtain u where u: "to_hex s = Inr u" by (simp add: to_hex_total)
  have b: "to_bin u = Inr s" using u by (rule to_bin_to_hex)
  have "fs' get_shared_secret_filesystem_path = Some (File 416 u)"
    using a u
    by (auto simp: set_shared_secret_on_filesystem_def open_append_fchmod_def
        write_text_file_def split: option.splits fs_node.splits)
  then show "get_shared_secret_from_filesystem fs' = Inr (Some s)"
    by (simp add: get_shared_secret_from_filesystem_def read_text_file_def b)
next
  assume a: "\<forall>e. fs get_shared_secret_filesystem_path \<noteq> Some (Broken e)"
  obtain u where u: "to_hex s = Inr u" by (simp add: to_hex_total)
  show "\<exists>fs1. set_shared_secret_on_filesystem s fs = Inr fs1"
    using a u
    by (auto simp: set_shared_secret_on_filesystem_def open_append_fchmod_def
        write_text_file_def split: option.splits fs_node.splits)
next
  assume "fs get_shared_secret_filesystem_path = None"
  then show "get_shared_secret_from_filesystem fs = Inr None"
    by (simp add: get_shared_secret_from_filesystem_def read_text_file_def)
next
  assume "fs get_shared_secret_filesystem_path = Some (Broken e) \<and> e \<noteq> ENOENT"
  then show "get_shared_secret_from_filesystem fs = Inl (IOError e)"
    by (simp add: get_shared_secret_from_filesystem_def read_text_file_def)
qed

theorem shared_secret_roundtrip_witness:
  "(\<exists>fs1. set_shared_secret_on_filesystem [0x00, 0xff] Map.empty = Inr fs1
        \<and> get_shared_secret_from_filesystem fs1 = Inr (Some [0x00, 0xff]))
   \<and> get_shared_secret_from_filesystem Map.empty = Inr None
   \<and> get_shared_secret_from_filesystem [get_shared_secret_filesystem_path \<mapsto> Broken EACCES]
       = Inl (IOError EACCES)"
proof -
  have "\<forall>e. (Map.empty :: filesystem) get_shared_secret_filesystem_path \<noteq> Some (Broken e)"
    by simp
  then obtain fs1 where 1: "set_shared_secret_on_filesystem [0x00, 0xff] Map.empty = Inr fs1"
    using shared_secret_roundtrip[of "[0x00, 0xff]" Map.empty] by blast
  have 2: "get_shared_secret_from_filesystem fs1 = Inr (Some [0x00, 0xff])"
    using 1 shared_secret_roundtrip[of "[0x00, 0xff]" Map.empty fs1] by blast
  have 3: "get_shared_secret_from_filesystem Map.empty = Inr None"
    using shared_secret_roundtrip[of _ Map.empty] by simp
  have 4: "get_shared_secret_from_filesystem [get_shared_secret_filesystem_path \<mapsto> Broken EACCES]
       = Inl (IOError EACCES)"
    using shared_secret_roundtrip[of _ "[get_shared_secret_filesystem_path \<mapsto> Broken EACCES]" _ EACCES]
    by simp
  show ?thesis using 1 2 3 4 by blast
qed

lemma to_hex_example: "to_hex [0x00, 0xff, 0x1a] = Inr ''00ff1a''"
  by code_simp

lemma to_bin_example: "to_bin ''00FF1a  '' = Inr [0x00, 0xff, 0x1a]"
  by code_simp

lemma to_bin_odd_example: "to_bin ''00ff1'' = Inl BinasciiError"
  by code_simp

section \<open>Properties of the script API\<close>

text \<open>
  Claim C8.  For a script that the lookup finds: with neither \<open>revision\<close> nor \<open>rev\<close>
  supplied, \<open>download\<close> returns a response whose content is the data of the latest
  revision and whose type is \<open>application/binary\<close>; with a revision id supplied through
  \<open>revision\<close>, or through \<open>rev\<close> when \<open>revision\<close> is absent (a supplied \<open>revision\<close> id
  makes \<open>rev\<close> irrelevant), it returns such a response with the data of the first
  revision of the history that has that id, and fails as not found in history when the
  history has no such id.
\<close>

theorem download_revision:
  assumes "lookup_script scripts name = Inr s"
  shows "(GET ''revision'' = None \<and> GET ''rev'' = None \<longrightarrow>
            (\<exists>resp. download Int_validator scripts GET name = Inr resp
               \<and> response_content resp = vtf_data (script_script s)
               \<and> content_type resp = ''application/binary''))
     \<and> ((GET ''revision'' = Some v \<and> Int_validator v = Inr (Some r))
          \<or> (GET ''revision'' = None \<and> GET ''rev'' = Some v \<and> Int_validator v = Inr (Some r)) \<longrightarrow>
            (r \<in> vtf_id ` set (previous_versions (script_script s)) \<longrightarrow>
               (\<exists>ver resp. find (\<lambda>x. vtf_id x = r) (previous_versions (script_script s)) = Some ver
                  \<and> ver \<in> set (previous_versions (script_script s)) \<and> vtf_id ver = r
                  \<and> download Int_validator scripts GET name = Inr resp
                  \<and> response_content resp = vtf_data ver
                  \<and> content_type resp = ''application/binary''))
          \<and> (r \<notin> vtf_id ` set (previous_versions (script_script s)) \<longrightarrow>
               download Int_validator scripts GET name
                 = Inl (MAASAPIValidationError (NotFoundInHistory r))))"
proof -
  let ?hist = "previous_versions (script_script s)"
  have latest: "download Int_validator scripts GET name
        = Inr (HttpResponse (vtf_data (script_script s)) ''application/binary'')"
    if "GET ''revision'' = None" "GET ''rev'' = None"
    using assms that
    by (auto simp: download_def lookup_script_def get_optional_param_def
        split: if_splits sum.splits)
  have chosen: "download Int_validator scripts GET name
        = (case find (\<lambda>x. vtf_id x = r) ?hist of
             Some ver \<Rightarrow> Inr (HttpResponse (vtf_data ver) ''application/binary'')
           | None \<Rightarrow> Inl (MAASAPIValidationError (NotFoundInHistory r)))"
    if "(GET ''revision'' = Some v \<and> Int_validator v = Inr (Some r))
          \<or> (GET ''revision'' = None \<and> GET ''rev'' = Some v \<and> Int_validator v = Inr (Some r))"
    using assms that
    by (auto simp: download_def lookup_script_def get_optional_param_def
        split: if_splits sum.splits)
  have found: "\<exists>ver. find (\<lambda>x. vtf_id x = r) ?hist = Some ver \<and> ver \<in> set ?hist \<and> vtf_id ver = r"
    if "r \<in> vtf_id ` set ?hist"
  proof -
    from that have "find (\<lambda>x. vtf_id x = r) ?hist \<noteq> None"
      by (auto simp: find_None_iff)
    then obtain ver where ver: "find (\<lambda>x. vtf_id x = r) ?hist = Some ver" by auto
    then have "ver \<in> set ?hist" "vtf_id ver = r"
      by (auto simp: find_Some_iff in_set_conv_nth)
    then show ?thesis using ver by auto
  qed
  have missing: "find (\<lambda>x. vtf_id x = r) ?hist = None" if "r \<notin> vtf_id ` set ?hist"
    using that by (auto simp: find_None_iff)
  show ?thesis
  proof (intro conjI impI)
    assume "GET ''revision'' = None \<and> GET ''rev'' = None"
    then have "download Int_validator scripts GET name
        = Inr (HttpResponse (vtf_data (script_script s)) ''application/binary'')"
      using latest by simp
    then show "\<exists>resp. download Int_validator scripts GET name = Inr resp
               \<and> response_content resp = vtf_data (script_script s)
               \<and> content_type resp = ''application/binary''"
      by (simp add: HttpResponse_def)
  next
    assume a: "(GET ''revision'' = Some v \<and> Int_validator v = Inr (Some r))
          \<or> (GET ''revision'' = None \<and> GET ''rev'' = Some v \<and> Int_validator v = Inr (Some r))"
      and b: "r \<in> vtf_id ` set ?hist"
    obtain ver where ver: "find (\<lambda>x. vtf_id x = r) ?hist = Some ver" "ver \<in> set ?hist"
        "vtf_id ver = r"
      using found[OF b] by blast
    have "download Int_validator scripts GET name
        = Inr (HttpResponse (vtf_data ver) ''application/binary'')"
      unfolding chosen[OF a] using ver(1) by simp
    then show "\<exists>ver resp. find (\<lambda>x. vtf_id x = r) ?hist = Some ver
                  \<and> ver \<in> set ?hist \<and> vtf_id ver = r
                  \<and> download Int_validator scripts GET name = Inr resp
                  \<and> response_content resp = vtf_data ver
                  \<and> content_type resp = ''application/binary''"
      using ver by (simp add: HttpResponse_def)
  next
    assume a: "(GET ''revision'' = Some v \<and> Int_validator v = Inr (Some r))
          \<or> (GET ''revision'' = None \<and> GET ''rev'' = Some v \<and> Int_validator v = Inr (Some r))"
      and b: "r \<notin> vtf_id ` set ?hist"
    show "download Int_validator scripts GET name
        = Inl (MAASAPIValidationError (NotFoundInHistory r))"
      unfolding chosen[OF a] using missing[OF b] by simp
  qed
qed

theorem download_revision_witness:
  "lookup_script [example_script] ''memtest'' = Inr example_script
   \<and> (\<exists>resp. download example_Int [example_script] Map.empty ''memtest'' = Inr resp
        \<and> response_content resp = ''echo 3'' \<and> content_type resp = ''application/binary'')
   \<and> (\<exists>ver resp. find (\<lambda>x. vtf_id x = 1) (previous_versions (script_script example_script))
                     = Some ver
        \<and> ver \<in> set (previous_versions (script_script example_script)) \<and> vtf_id ver = 1
        \<and> download example_Int [example_script] [''revision'' \<mapsto> ''1'', ''rev'' \<mapsto> ''2''] ''memtest''
            = Inr resp
        \<and> response_content resp = vtf_data ver \<and> content_type resp = ''application/binary'')
   \<and> download example_Int [example_script] [''rev'' \<mapsto> ''9''] ''memtest''
       = Inl (MAASAPIValidationError (NotFoundInHistory 9))"
proof -
  have l: "lookup_script [example_script] ''memtest'' = Inr example_script"
    by code_simp
  note t = download_revision[OF l]
  have i1: "example_Int ''1'' = Inr (Some 1)" by code_simp
  have i9: "example_Int ''9'' = Inr (Some 9)" by code_simp
  have ids: "vtf_id ` set (previous_versions (script_script example_script)) = {3, 2, 1}"
    by (simp add: example_script_def)
  have 1: "\<exists>resp. download example_Int [example_script] Map.empty ''memtest'' = Inr resp
        \<and> response_content resp = ''echo 3'' \<and> content_type resp = ''application/binary''"
    using t[where GET = Map.empty and Int_validator = example_Int]
    by (simp add: example_script_def)
  have 2: "\<exists>ver resp. find (\<lambda>x. vtf_id x = 1) (previous_versions (script_script example_script))
                     = Some ver
        \<and> ver \<in> set (previous_versions (script_script example_script)) \<and> vtf_id ver = 1
        \<and> download example_Int [example_script] [''revision'' \<mapsto> ''1'', ''rev'' \<mapsto> ''2''] ''memtest''
            = Inr resp
        \<and> response_content resp = vtf_data ver \<and> content_type resp = ''application/binary''"
    using t[where GET = "[''revision'' \<mapsto> ''1'', ''rev'' \<mapsto> ''2'']" and v = "''1''"
        and Int_validator = example_Int and r = 1] i1 ids
    by simp
  have 3: "download example_Int [example_script] [''rev'' \<mapsto> ''9''] ''memtest''
       = Inl (MAASAPIValidationError (NotFoundInHistory 9))"
    using t[where GET = "[''rev'' \<mapsto> ''9'']" and v = "''9''"
        and Int_validator = example_Int and r = 9] i9 ids
    by simp
  show ?thesis using l 1 2 3 by blast
qed

text \<open>
  The lookup by itself: a name of decimal digits is looked up as an id, a name with a
  superscript digit raises \<open>ValueError\<close>, any other name is looked up as a name, and a
  script that is not found is a 404.
\<close>

lemma lookup_script_by_id:
  "lookup_script [example_script] ''7'' = Inr example_script"
  by code_simp

lemma lookup_script_missing:
  "lookup_script [example_script] ''8'' = Inl Http404"
  by code_simp

lemma lookup_script_superscript:
  "isdigit [char_of (178 :: nat)] \<and> lookup_script scripts [char_of (178 :: nat)] = Inl IntValueError
   \<and> download Int_validator scripts GET [char_of (178 :: nat)] = Inl IntValueError"
  by (simp add: isdigit_def is_digit_char_def is_decimal_char_def lookup_script_def
      download_def int_of_name_def)

lemma download_second_revision:
  "download example_Int [example_script] [''rev'' \<mapsto> ''2''] ''7''
     = Inr \<lparr>response_content = ''echo 2'', content_type = ''application/binary''\<rparr>"
  by (simp add: download_def get_optional_param_def example_Int_def example_script_def
      isdigit_def is_digit_char_def is_decimal_char_def int_of_name_def int_of_digits_def
      get_object_or_404_def HttpResponse_def)

section \<open>Properties of the MAC address model\<close>

lemma raise_if_dynamic:
  "raise_if_address_inside_dynamic_range db a None =
     (if address_is_dynamic db a then Inl StaticIPAddressForbidden else Inr ())"
  by (simp add: raise_if_address_inside_dynamic_range_def address_is_dynamic_def list_ex_iff)

lemma network_check:
  assumes "\<And>c. ci = Some c \<Longrightarrow> network c \<noteq> None"
  shows "(case ci of
            None \<Rightarrow> Inr ()
          | Some c \<Rightarrow>
              (case network c of
                 None \<Rightarrow> Inl TypeError
               | Some net \<Rightarrow>
                   if \<not> in_network a net then Inl StaticIPAddressConflict else Inr ()))
         = (if outside_network ci a then Inl StaticIPAddressConflict else Inr ())"
  using assms by (auto simp: outside_network_def split: option.splits)

lemma find_sip_None:
  "find (\<lambda>s. sip_ip s = a) (static_ip_addresses db) = None
     \<longleftrightarrow> a \<notin> sip_ip ` set (static_ip_addresses db)"
  by (auto simp: find_None_iff)

text \<open>
  Claim C1.  \<open>set_static_ip(requested_address, user)\<close>, called on a MAC that belongs
  to a node and whose cluster interface (if it has one) has a network, with the default
  \<open>fabric\<close>: when the MAC is linked to a cluster interface and the address is not in that
  interface's network, the call fails as a conflict; otherwise, when the address lies
  inside a dynamic range, it fails as forbidden; otherwise, when a \<open>StaticIPAddress\<close>
  for the address exists, the call fails as unavailable unless that record is \<open>STICKY\<close>
  and linked to this MAC, and then it returns that record and leaves the tables as they
  were; and when none exists, one is created with type \<open>STICKY\<close>, owned by the user,
  and linked to this MAC.
\<close>

theorem set_static_ip_outcomes:
  assumes ci: "get_cluster_interface self = Inr ci"
    and net: "\<And>c. ci = Some c \<Longrightarrow> network c \<noteq> None"
    and nd: "node self \<noteq> None"
  shows "(outside_network ci a \<longrightarrow>
            set_static_ip self db a user None uhm = Inl StaticIPAddressConflict)
     \<and> (\<not> outside_network ci a \<and> address_is_dynamic db a \<longrightarrow>
            set_static_ip self db a user None uhm = Inl StaticIPAddressForbidden)
     \<and> (\<not> outside_network ci a \<and> \<not> address_is_dynamic db a \<longrightarrow>
          (\<forall>sip. find (\<lambda>s. sip_ip s = a) (static_ip_addresses db) = Some sip \<longrightarrow>
             (if alloc_type sip = STICKY
                 \<and> (mac_address self, sip_id sip) \<in> set (mac_static_ip_links db)
              then \<exists>db'. set_static_ip self db a user None uhm = Inr (sip, db')
                     \<and> static_ip_addresses db' = static_ip_addresses db
                     \<and> mac_static_ip_links db' = mac_static_ip_links db
              else \<exists>why. set_static_ip self db a user None uhm
                     = Inl (StaticIPAddressUnavailable why)))
          \<and> (a \<notin> sip_ip ` set (static_ip_addresses db) \<longrightarrow>
               (\<exists>sip db'. set_static_ip self db a user None uhm = Inr (sip, db')
                  \<and> sip_ip sip = a \<and> alloc_type sip = STICKY \<and> sip_user sip = Some user
                  \<and> sip_id sip \<notin> sip_id ` set (static_ip_addresses db)
                  \<and> static_ip_addresses db' = static_ip_addresses db @ [sip]
                  \<and> mac_static_ip_links db'
                      = mac_static_ip_links db @ [(mac_address self, sip_id sip)])))"
proof -
  obtain n where n: "node self = Some n" using nd by auto
  note defs = set_static_ip_def ci network_check[OF net] raise_if_dynamic n
  have conflict: "set_static_ip self db a user None uhm = Inl StaticIPAddressConflict"
    if "outside_network ci a"
    using that by (simp add: defs)
  have forbidden: "set_static_ip self db a user None uhm = Inl StaticIPAddressForbidden"
    if "\<not> outside_network ci a" "address_is_dynamic db a"
    using that by (simp add: defs)
  have existing: "if alloc_type sip = STICKY
                 \<and> (mac_address self, sip_id sip) \<in> set (mac_static_ip_links db)
              then \<exists>db'. set_static_ip self db a user None uhm = Inr (sip, db')
                     \<and> static_ip_addresses db' = static_ip_addresses db
                     \<and> mac_static_ip_links db' = mac_static_ip_links db
              else \<exists>why. set_static_ip self db a user None uhm
                     = Inl (StaticIPAddressUnavailable why)"
    if "\<not> outside_network ci a" "\<not> address_is_dynamic db a"
      "find (\<lambda>s. sip_ip s = a) (static_ip_addresses db) = Some sip" for sip
    using that by (simp add: defs get_or_create_def)
  have fresh: "fresh_sip_id db \<notin> sip_id ` set (static_ip_addresses db)"
  proof -
    have "x \<le> foldr max xs (0::nat)" if "x \<in> set xs" for x xs
      using that by (induction xs) (auto simp: max_def)
    then have "\<And>s. s \<in> set (static_ip_addresses db) \<Longrightarrow> sip_id s < fresh_sip_id db"
      by (simp add: fresh_sip_id_def less_Suc_eq_le)
    then show ?thesis by (metis imageE less_irrefl)
  qed
  have created: "\<exists>sip db'. set_static_ip self db a user None uhm = Inr (sip, db')
                  \<and> sip_ip sip = a \<and> alloc_type sip = STICKY \<and> sip_user sip = Some user
                  \<and> sip_id sip \<notin> sip_id ` set (static_ip_addresses db)
                  \<and> static_ip_addresses db' = static_ip_addresses db @ [sip]
                  \<and> mac_static_ip_links db'
                      = mac_static_ip_links db @ [(mac_address self, sip_id sip)]"
    if "\<not> outside_network ci a" "\<not> address_is_dynamic db a"
      "a \<notin> sip_ip ` set (static_ip_addresses db)"
  proof -
    have f: "find (\<lambda>s. sip_ip s = a) (static_ip_addresses db) = None"
      using that(3) by (simp add: find_sip_None)
    show ?thesis using that(1,2) fresh by (simp add: defs get_or_create_def f Let_def)
  qed
  show ?thesis using conflict forbidden existing created by blast
qed

theorem set_static_ip_outcomes_witness:
  "get_cluster_interface example_mac = Inr (Some example_interface)
   \<and> set_static_ip example_mac example_database 250 ''alice'' None True
       = Inl StaticIPAddressConflict
   \<and> set_static_ip example_mac example_database 155 ''alice'' None True
       = Inl StaticIPAddressForbidden
   \<and> (\<exists>db'. set_static_ip example_mac example_database 110 ''alice'' None True
                = Inr (example_sticky, db')
          \<and> static_ip_addresses db' = static_ip_addresses example_database
          \<and> mac_static_ip_links db' = mac_static_ip_links example_database)
   \<and> (\<exists>why. set_static_ip example_mac example_database 120 ''alice'' None True
                = Inl (StaticIPAddressUnavailable why))
   \<and> (\<exists>why. set_static_ip example_mac example_database 130 ''alice'' None True
                = Inl (StaticIPAddressUnavailable why))
   \<and> (\<exists>sip db'. set_static_ip example_mac example_database 140 ''alice'' None True
                = Inr (sip, db')
          \<and> sip_ip sip = 140 \<and> alloc_type sip = STICKY \<and> sip_user sip = Some ''alice''
          \<and> static_ip_addresses db' = static_ip_addresses example_database @ [sip]
          \<and> mac_static_ip_links db'
              = mac_static_ip_links example_database @ [(mac_address example_mac, sip_id sip)])"
proof -
  have ci: "get_cluster_interface example_mac = Inr (Some example_interface)"
    by (simp add: get_cluster_interface_def example_mac_def)
  have net: "\<And>c. Some example_interface = Some c \<Longrightarrow> network c \<noteq> None"
    by (auto simp: example_interface_def)
  have nd: "node example_mac \<noteq> None" by (simp add: example_mac_def)
  note t = set_static_ip_outcomes[OF ci net nd, where db = example_database
      and user = "''alice''" and uhm = True]
  have out: "outside_network (Some example_interface) a \<longleftrightarrow> \<not> (100 \<le> a \<and> a \<le> 199)" for a
    by (simp add: outside_network_def example_interface_def in_network_def)
  have dyn: "address_is_dynamic example_database a \<longleftrightarrow> 150 \<le> a \<and> a \<le> 160" for a
    by (simp add: address_is_dynamic_def example_database_def example_interface_def
        inside_dynamic_range_def)
  have sips: "static_ip_addresses example_database
      = [example_sticky,
         \<lparr>sip_id = 2, sip_ip = 120, alloc_type = AUTO, sip_user = None, sip_subnet = Some 1\<rparr>,
         \<lparr>sip_id = 3, sip_ip = 130, alloc_type = STICKY, sip_user = Some ''bob'', sip_subnet = Some 1\<rparr>]"
    by (simp add: example_database_def)
  have links: "mac_static_ip_links example_database
      = [(''aa:bb:cc:dd:ee:01'', 1), (''aa:bb:cc:dd:ee:02'', 3)]"
    by (simp add: example_database_def)
  have 1: "set_static_ip example_mac example_database 250 ''alice'' None True
       = Inl StaticIPAddressConflict"
    using t[where a = 250] by (simp add: out)
  have 2: "set_static_ip example_mac example_database 155 ''alice'' None True
       = Inl StaticIPAddressForbidden"
    using t[where a = 155] by (simp add: out dyn)
  have 3: "\<exists>db'. set_static_ip example_mac example_database 110 ''alice'' None True
                = Inr (example_sticky, db')
          \<and> static_ip_addresses db' = static_ip_addresses example_database
          \<and> mac_static_ip_links db' = mac_static_ip_links example_database"
    using t[where a = 110]
    by (simp add: out dyn sips links example_sticky_def example_mac_def)
  have 4: "\<exists>why. set_static_ip example_mac example_database 120 ''alice'' None True
                = Inl (StaticIPAddressUnavailable why)"
    using t[where a = 120]
    by (simp add: out dyn sips links example_sticky_def example_mac_def)
  have 5: "\<exists>why. set_static_ip example_mac example_database 130 ''alice'' None True
                = Inl (StaticIPAddressUnavailable why)"
    using t[where a = 130]
    by (simp add: out dyn sips links example_sticky_def example_mac_def)
  have 6: "\<exists>sip db'. set_static_ip example_mac example_database 140 ''alice'' None True
                = Inr (sip, db')
          \<and> sip_ip sip = 140 \<and> alloc_type sip = STICKY \<and> sip_user sip = Some ''alice''
          \<and> static_ip_addresses db' = static_ip_addresses example_database @ [sip]
          \<and> mac_static_ip_links db'
              = mac_static_ip_links example_database @ [(mac_address example_mac, sip_id sip)]"
    using t[where a = 140]
    by (simp add: out dyn sips example_sticky_def) blast
  show ?thesis using ci 1 2 3 4 5 6 by blast
qed

lemma set_static_ip_example_created:
  "set_static_ip example_mac example_database 140 ''alice'' None False
     = Inr (\<lparr>sip_id = 4, sip_ip = 140, alloc_type = STICKY, sip_user = Some ''alice'',
              sip_subnet = Some 1\<rparr>,
            example_database
              \<lparr>static_ip_addresses := static_ip_addresses example_database @
                 [\<lparr>sip_id = 4, sip_ip = 140, alloc_type = STICKY, sip_user = Some ''alice'',
                   sip_subnet = Some 1\<rparr>],
               mac_static_ip_links := mac_static_ip_links example_database @
                 [(''aa:bb:cc:dd:ee:01'', 4)]\<rparr>)"
  by (simp add: set_static_ip_def get_cluster_interface_def example_mac_def
      example_interface_def in_network_def raise_if_address_inside_dynamic_range_def
      inside_dynamic_range_def example_database_def example_sticky_def get_or_create_def
      fresh_sip_id_def Let_def)

lemma set_static_ip_no_node:
  "set_static_ip \<lparr>mac_address = ''aa:bb:cc:dd:ee:09'', node = None, cluster_interface = None\<rparr>
     example_database 140 ''alice'' None True = Inl AttributeError"
  by (simp add: set_static_ip_def get_cluster_interface_def)

section \<open>Properties of the detail merge\<close>

lemma merge_loop_children:
  "merge_loop fromstring details namespaces root' =
     Element (tag_namespace root') (tag_local root') (nsdecls root')
       (children root' @ merged_details fromstring details namespaces)"
proof (induction namespaces arbitrary: root')
  case Nil
  then show ?case by (simp add: merged_details_def)
next
  case (Cons namespace rest)
  show ?case
    by (simp add: Cons.IH merged_details_def append_child_def split: option.splits)
qed

lemma merged_details_member:
  assumes "namespace \<in> set namespaces"
    and "map_of details namespace = Some (Some xmldata)"
    and "fromstring xmldata = Some detail"
  shows "add_namespace namespace detail \<in> set (merged_details fromstring details namespaces)"
  using assms by (auto simp: merged_details_def intro!: bexI[of _ namespace])

lemma sorted_keys_member:
  "map_of details namespace = Some v \<Longrightarrow> namespace \<in> set (sorted_keys details)"
  by (auto simp: sorted_keys_def dest: map_of_SomeD intro: rev_image_eqI)

lemma sorted_keys_set: "set (sorted_keys details) = fst ` set details"
  by (simp add: sorted_keys_def)

lemma merge_details_lshw:
  assumes "map_of details ''lshw'' = Some (Some xmldata)"
    and "fromstring xmldata = Some lshw"
    and "\<forall>namespace \<in> fst ` set details. accepts namespace"
  shows "merge_details accepts fromstring details =
     Inr \<lparr>getroot = Element (tag_namespace lshw) (tag_local lshw) (nsdecls lshw)
         (children lshw @ merged_details fromstring details (sorted_keys details)),
      inherited_nsmap = map (\<lambda>ns. (ns, ns)) (sorted_keys details)\<rparr>"
proof -
  have "list_all accepts (sorted_keys details)"
    using assms(3) by (simp add: list_all_iff sorted_keys_set)
  then show ?thesis
    using assms(1,2)
    by (simp add: merge_details_def details_prepare_merge_def comp_def
        details_make_backwards_compatible_def details_do_merge_def merge_loop_children)
qed

lemma merge_details_rejected:
  assumes "(namespace, xmldata) \<in> set details" and "\<not> accepts namespace"
  shows "merge_details accepts fromstring details = Inl LxmlValueError"
    and "merge_details_cleanly accepts fromstring details = Inl LxmlValueError"
proof -
  have "namespace \<in> set (sorted_keys details)"
    using assms(1) by (force simp: sorted_keys_set)
  then have "\<not> list_all accepts (sorted_keys details)"
    using assms(2) by (auto simp: list_all_iff)
  then show "merge_details accepts fromstring details = Inl LxmlValueError"
    and "merge_details_cleanly accepts fromstring details = Inl LxmlValueError"
    by (simp_all add: merge_details_def merge_details_cleanly_def details_prepare_merge_def
        comp_def)
qed

text \<open>
  What \<open>add_namespace\<close> does to the elements of a document, in document order and at
  every depth: local names, namespace declarations and numbers of children are kept, an
  element without a namespace gets the new one, and an element with a namespace keeps it.
\<close>

lemma add_namespace_local:
  "map tag_local (iter_elems (add_namespace namespace detail)) = map tag_local (iter_elems detail)"
proof (induction detail)
  case (Element ns name decls elems)
  then have "map (\<lambda>e. map tag_local (iter_elems (add_namespace namespace e))) elems
      = map (\<lambda>e. map tag_local (iter_elems e)) elems"
    by simp
  then show ?case by (simp only: iter_elems.simps add_namespace.simps list.map map_concat
        map_map comp_def element.sel option.case)
qed

lemma add_namespace_nsdecls:
  "map nsdecls (iter_elems (add_namespace namespace detail)) = map nsdecls (iter_elems detail)"
proof (induction detail)
  case (Element ns name decls elems)
  then have "map (\<lambda>e. map nsdecls (iter_elems (add_namespace namespace e))) elems
      = map (\<lambda>e. map nsdecls (iter_elems e)) elems"
    by simp
  then show ?case by (simp only: iter_elems.simps add_namespace.simps list.map map_concat
        map_map comp_def element.sel option.case)
qed

lemma add_namespace_arity:
  "map (\<lambda>e. length (children e)) (iter_elems (add_namespace namespace detail))
     = map (\<lambda>e. length (children e)) (iter_elems detail)"
proof (induction detail)
  case (Element ns name decls elems)
  then have "map (\<lambda>e. map (\<lambda>e. length (children e)) (iter_elems (add_namespace namespace e))) elems
      = map (\<lambda>e. map (\<lambda>e. length (children e)) (iter_elems e)) elems"
    by simp
  then show ?case by (simp only: iter_elems.simps add_namespace.simps list.map map_concat
        map_map comp_def element.sel option.case length_map)
qed

lemma add_namespace_tag_namespace:
  "map tag_namespace (iter_elems (add_namespace namespace detail))
     = map (\<lambda>e. case tag_namespace e of None \<Rightarrow> Some namespace | Some n \<Rightarrow> Some n)
         (iter_elems detail)"
proof (induction detail)
  case (Element ns name decls elems)
  then have "map (\<lambda>e. map tag_namespace (iter_elems (add_namespace namespace e))) elems
      = map (\<lambda>e. map (\<lambda>e. case tag_namespace e of None \<Rightarrow> Some namespace | Some n \<Rightarrow> Some n)
               (iter_elems e)) elems"
    by simp
  then show ?case by (simp only: iter_elems.simps add_namespace.simps list.map map_concat
        map_map comp_def element.sel option.case)
qed

lemma add_namespace_length:
  "length (iter_elems (add_namespace namespace detail)) = length (iter_elems detail)"
  using arg_cong[OF add_namespace_local, of length] by simp

lemma add_namespace_nth:
  assumes "i < length (iter_elems detail)"
  shows "tag_namespace (iter_elems (add_namespace namespace detail) ! i)
     = (case tag_namespace (iter_elems detail ! i) of
          None \<Rightarrow> Some namespace | Some n \<Rightarrow> Some n)"
proof -
  have "tag_namespace (iter_elems (add_namespace namespace detail) ! i)
      = map tag_namespace (iter_elems (add_namespace namespace detail)) ! i"
    using assms by (simp add: add_namespace_length)
  also have "\<dots> = (case tag_namespace (iter_elems detail ! i) of
          None \<Rightarrow> Some namespace | Some n \<Rightarrow> Some n)"
    using assms by (simp add: add_namespace_tag_namespace)
  finally show ?thesis .
qed

text \<open>
  Claim C3.  When the details hold a well-formed \<open>lshw\<close> document, and every key is a
  name that \<open>lxml\<close> accepts, \<open>merge_details\<close> returns a document whose root is the root
  element of the parsed \<open>lshw\<close> tree (its tag, its own namespace declarations, its
  children first) and not the synthetic \<open>list\<close> element.  The \<open>lshw\<close> document, parsed
  again and re-tagged into the \<open>lshw\<close> namespace, is one of the children appended to it,
  and so is every other well-formed detail, re-tagged into its own namespace.  The
  re-tagged copy of a detail has, in document order and at every depth, the local names,
  the namespace declarations and the numbers of children of the detail; its element
  is in the detail's namespace where the element of the detail has no namespace, and in
  the namespace of the detail's element where that has one.
  Merging \<open>{"lshw": "<list><node/></list>", "lldp": "<info/>"}\<close> gives a \<open>list\<close> root
  holding the \<open>node\<close> element, the \<open>info\<close> element in the \<open>lldp\<close> namespace and the
  \<open>lshw\<close> copy.
\<close>

theorem merge_details_lshw_root:
  assumes "map_of details ''lshw'' = Some (Some xmldata)"
    and "fromstring xmldata = Some lshw"
    and "\<forall>namespace \<in> fst ` set details. accepts namespace"
  shows "(\<exists>doc appended.
            merge_details accepts fromstring details = Inr doc
          \<and> getroot doc
              = Element (tag_namespace lshw) (tag_local lshw) (nsdecls lshw)
                  (children lshw @ appended)
          \<and> (\<exists>copy \<in> set appended.
                map tag_local (iter_elems copy) = map tag_local (iter_elems lshw)
              \<and> (\<forall>i < length (iter_elems lshw).
                    tag_namespace (iter_elems lshw ! i) = None
                    \<longrightarrow> tag_namespace (iter_elems copy ! i) = Some ''lshw''))
          \<and> (\<forall>namespace other detail.
                map_of details namespace = Some (Some other) \<and> fromstring other = Some detail
                \<longrightarrow> (\<exists>merged \<in> set appended.
                       map tag_local (iter_elems merged) = map tag_local (iter_elems detail)
                     \<and> map nsdecls (iter_elems merged) = map nsdecls (iter_elems detail)
                     \<and> map (\<lambda>e. length (children e)) (iter_elems merged)
                         = map (\<lambda>e. length (children e)) (iter_elems detail)
                     \<and> (\<forall>i < length (iter_elems detail).
                           (tag_namespace (iter_elems detail ! i) = None
                              \<longrightarrow> tag_namespace (iter_elems merged ! i) = Some namespace)
                         \<and> (tag_namespace (iter_elems detail ! i) \<noteq> None
                              \<longrightarrow> tag_namespace (iter_elems merged ! i)
                                    = tag_namespace (iter_elems detail ! i))))))
     \<and> (details = [(''lshw'', Some ''<list><node/></list>''), (''lldp'', Some ''<info/>'')]
          \<and> lshw = Element None ''list'' [] [Element None ''node'' [] []]
          \<and> fromstring ''<info/>'' = Some (Element None ''info'' [] [])
          \<longrightarrow> map_sum id getroot (merge_details accepts fromstring details)
                = Inr (Element None ''list'' []
                    [Element None ''node'' [] [],
                     Element (Some ''lldp'') ''info'' [] [],
                     Element (Some ''lshw'') ''list'' [] [Element (Some ''lshw'') ''node'' [] []]]))"
proof (intro conjI impI)
  let ?appended = "merged_details fromstring details (sorted_keys details)"
  let ?doc = "\<lparr>getroot = Element (tag_namespace lshw) (tag_local lshw) (nsdecls lshw)
         (children lshw @ ?appended),
      inherited_nsmap = map (\<lambda>ns. (ns, ns)) (sorted_keys details)\<rparr>"
  have doc: "merge_details accepts fromstring details = Inr ?doc"
    by (rule merge_details_lshw[where fromstring = fromstring, OF assms])
  have member: "add_namespace namespace detail \<in> set ?appended"
    if "map_of details namespace = Some (Some other)" "fromstring other = Some detail"
    for namespace other detail
    using sorted_keys_member[OF that(1)] that
    by (rule merged_details_member[where fromstring = fromstring])
  have retag: "(tag_namespace (iter_elems detail ! i) = None
                  \<longrightarrow> tag_namespace (iter_elems (add_namespace namespace detail) ! i)
                        = Some namespace)
             \<and> (tag_namespace (iter_elems detail ! i) \<noteq> None
                  \<longrightarrow> tag_namespace (iter_elems (add_namespace namespace detail) ! i)
                        = tag_namespace (iter_elems detail ! i))"
    if "i < length (iter_elems detail)" for i namespace detail
    using add_namespace_nth[OF that, of namespace] by (auto split: option.splits)
  have 1: "\<exists>copy \<in> set ?appended.
                map tag_local (iter_elems copy) = map tag_local (iter_elems lshw)
              \<and> (\<forall>i < length (iter_elems lshw).
                    tag_namespace (iter_elems lshw ! i) = None
                    \<longrightarrow> tag_namespace (iter_elems copy ! i) = Some ''lshw'')"
    using member[OF assms(1,2)] retag[of _ lshw "''lshw''"]
    by (intro bexI[of _ "add_namespace ''lshw'' lshw"]) (simp_all add: add_namespace_local)
  have 2: "\<exists>merged \<in> set ?appended.
                       map tag_local (iter_elems merged) = map tag_local (iter_elems detail)
                     \<and> map nsdecls (iter_elems merged) = map nsdecls (iter_elems detail)
                     \<and> map (\<lambda>e. length (children e)) (iter_elems merged)
                         = map (\<lambda>e. length (children e)) (iter_elems detail)
                     \<and> (\<forall>i < length (iter_elems detail).
                           (tag_namespace (iter_elems detail ! i) = None
                              \<longrightarrow> tag_namespace (iter_elems merged ! i) = Some namespace)
                         \<and> (tag_namespace (iter_elems detail ! i) \<noteq> None
                              \<longrightarrow> tag_namespace (iter_elems merged ! i)
                                    = tag_namespace (iter_elems detail ! i)))"
    if "map_of details namespace = Some (Some other) \<and> fromstring other = Some detail"
    for namespace other detail
  proof (intro bexI[of _ "add_namespace namespace detail"] conjI allI impI)
    show "add_namespace namespace detail \<in> set ?appended"
      using that member by blast
    show "map tag_local (iter_elems (add_namespace namespace detail))
        = map tag_local (iter_elems detail)"
      by (rule add_namespace_local)
    show "map nsdecls (iter_elems (add_namespace namespace detail))
        = map nsdecls (iter_elems detail)"
      by (rule add_namespace_nsdecls)
    show "map (\<lambda>e. length (children e)) (iter_elems (add_namespace namespace detail))
        = map (\<lambda>e. length (children e)) (iter_elems detail)"
      by (rule add_namespace_arity)
  next
    fix i assume "i < length (iter_elems detail)"
      and "tag_namespace (iter_elems detail ! i) = None"
    then show "tag_namespace (iter_elems (add_namespace namespace detail) ! i) = Some namespace"
      using retag by blast
  next
    fix i assume "i < length (iter_elems detail)"
      and "tag_namespace (iter_elems detail ! i) \<noteq> None"
    then show "tag_namespace (iter_elems (add_namespace namespace detail) ! i)
        = tag_namespace (iter_elems detail ! i)"
      using retag by blast
  qed
  show "\<exists>doc appended.
            merge_details accepts fromstring details = Inr doc
          \<and> getroot doc
              = Element (tag_namespace lshw) (tag_local lshw) (nsdecls lshw)
                  (children lshw @ appended)
          \<and> (\<exists>copy \<in> set appended.
                map tag_local (iter_elems copy) = map tag_local (iter_elems lshw)
              \<and> (\<forall>i < length (iter_elems lshw).
                    tag_namespace (iter_elems lshw ! i) = None
                    \<longrightarrow> tag_namespace (iter_elems copy ! i) = Some ''lshw''))
          \<and> (\<forall>namespace other detail.
                map_of details namespace = Some (Some other) \<and> fromstring other = Some detail
                \<longrightarrow> (\<exists>merged \<in> set appended.
                       map tag_local (iter_elems merged) = map tag_local (iter_elems detail)
                     \<and> map nsdecls (iter_elems merged) = map nsdecls (iter_elems detail)
                     \<and> map (\<lambda>e. length (children e)) (iter_elems merged)
                         = map (\<lambda>e. length (children e)) (iter_elems detail)
                     \<and> (\<forall>i < length (iter_elems detail).
                           (tag_namespace (iter_elems detail ! i) = None
                              \<longrightarrow> tag_namespace (iter_elems merged ! i) = Some namespace)
                         \<and> (tag_namespace (iter_elems detail ! i) \<noteq> None
                              \<longrightarrow> tag_namespace (iter_elems merged ! i)
                                    = tag_namespace (iter_elems detail ! i)))))"
  proof (intro exI[of _ ?doc] exI[of _ ?appended] conjI allI impI)
    show "merge_details accepts fromstring details = Inr ?doc" by (rule doc)
    show "getroot ?doc = Element (tag_namespace lshw) (tag_local lshw) (nsdecls lshw)
            (children lshw @ ?appended)"
      by simp
    show "\<exists>copy \<in> set ?appended.
                map tag_local (iter_elems copy) = map tag_local (iter_elems lshw)
              \<and> (\<forall>i < length (iter_elems lshw).
                    tag_namespace (iter_elems lshw ! i) = None
                    \<longrightarrow> tag_namespace (iter_elems copy ! i) = Some ''lshw'')"
      by (rule 1)
  next
    fix namespace other detail
    assume "map_of details namespace = Some (Some other) \<and> fromstring other = Some detail"
    then show "\<exists>merged \<in> set ?appended.
                       map tag_local (iter_elems merged) = map tag_local (iter_elems detail)
                     \<and> map nsdecls (iter_elems merged) = map nsdecls (iter_elems detail)
                     \<and> map (\<lambda>e. length (children e)) (iter_elems merged)
                         = map (\<lambda>e. length (children e)) (iter_elems detail)
                     \<and> (\<forall>i < length (iter_elems detail).
                           (tag_namespace (iter_elems detail ! i) = None
                              \<longrightarrow> tag_namespace (iter_elems merged ! i) = Some namespace)
                         \<and> (tag_namespace (iter_elems detail ! i) \<noteq> None
                              \<longrightarrow> tag_namespace (iter_elems merged ! i)
                                    = tag_namespace (iter_elems detail ! i)))"
      by (rule 2)
  qed
next
  assume a: "details = [(''lshw'', Some ''<list><node/></list>''), (''lldp'', Some ''<info/>'')]
          \<and> lshw = Element None ''list'' [] [Element None ''node'' [] []]
          \<and> fromstring ''<info/>'' = Some (Element None ''info'' [] [])"
  have x: "xmldata = ''<list><node/></list>''" using assms(1) a by simp
  have k: "sorted_keys [(''lshw'', Some ''<list><node/></list>''), (''lldp'', Some ''<info/>'')]
      = [''lldp'', ''lshw'']"
    by code_simp
  have e: "map_sum id getroot (merge_details accepts fromstring details)
      = Inr (Element (tag_namespace lshw) (tag_local lshw) (nsdecls lshw)
          (children lshw @ merged_details fromstring details (sorted_keys details)))"
    by (simp add: merge_details_lshw[where fromstring = fromstring, OF assms])
  have m: "merged_details fromstring details (sorted_keys details)
      = [Element (Some ''lldp'') ''info'' [] [],
         Element (Some ''lshw'') ''list'' [] [Element (Some ''lshw'') ''node'' [] []]]"
    using a assms(2) x by (simp add: merged_details_def k)
  show "map_sum id getroot (merge_details accepts fromstring details)
      = Inr (Element None ''list'' []
          [Element None ''node'' [] [],
           Element (Some ''lldp'') ''info'' [] [],
           Element (Some ''lshw'') ''list'' [] [Element (Some ''lshw'') ''node'' [] []]])"
    unfolding e m using a by simp
qed

theorem merge_details_lshw_root_witness:
  "map_of [(''lshw'', Some ''<list><node/></list>''), (''lldp'', Some ''<info/>'')] ''lshw''
     = Some (Some ''<list><node/></list>'')
   \<and> example_fromstring ''<list><node/></list>''
       = Some (Element None ''list'' [] [Element None ''node'' [] []])
   \<and> example_accepts ''lshw'' \<and> example_accepts ''lldp''
   \<and> example_fromstring ''<info/>'' = Some (Element None ''info'' [] [])
   \<and> map_sum id getroot (merge_details example_accepts example_fromstring
         [(''lshw'', Some ''<list><node/></list>''), (''lldp'', Some ''<info/>'')])
       = Inr (Element None ''list'' []
           [Element None ''node'' [] [],
            Element (Some ''lldp'') ''info'' [] [],
            Element (Some ''lshw'') ''list'' [] [Element (Some ''lshw'') ''node'' [] []]])"
proof -
  have 1: "map_of [(''lshw'', Some ''<list><node/></list>''), (''lldp'', Some ''<info/>'')] ''lshw''
     = Some (Some ''<list><node/></list>'')" by simp
  have 2: "example_fromstring ''<list><node/></list>''
       = Some (Element None ''list'' [] [Element None ''node'' [] []])"
    by (simp add: example_fromstring_def)
  have 3: "example_fromstring ''<info/>'' = Some (Element None ''info'' [] [])"
    by (simp add: example_fromstring_def)
  have 4: "example_accepts ''lshw''" "example_accepts ''lldp''"
    by (simp_all add: example_accepts_def)
  have 5: "\<forall>namespace \<in> fst ` set [(''lshw'', Some ''<list><node/></list>''),
      (''lldp'', Some ''<info/>'')]. example_accepts namespace"
    using 4 by simp
  show ?thesis
    using 1 2 3 4
      merge_details_lshw_root[where fromstring = example_fromstring, OF 1 2 5]
    by blast
qed

text \<open>
  A detail of four levels with an element that has a namespace already: the elements
  \<open>a\<close>, \<open>c\<close> and \<open>d\<close> move into the \<open>lldp\<close> namespace and \<open>x:b\<close> stays where it is.
\<close>

lemma merge_details_nested:
  "map_sum id getroot (merge_details example_accepts example_fromstring
      [(''lshw'', Some ''<list><node/></list>''), (''lldp'', Some example_nested)])
   = Inr (Element None ''list'' []
       [Element None ''node'' [] [],
        Element (Some ''lldp'') ''a'' [(''x'', ''urn:x'')]
          [Element (Some ''urn:x'') ''b'' []
             [Element (Some ''lldp'') ''c'' [] [Element (Some ''lldp'') ''d'' [] []]]],
        Element (Some ''lshw'') ''list'' [] [Element (Some ''lshw'') ''node'' [] []]])"
  by code_simp

lemma merge_details_malformed_lshw:
  "map_sum id getroot (merge_details example_accepts example_fromstring
      [(''lshw'', Some ''<list><node/>''), (''lldp'', Some ''<info/>'')])
   = Inr (Element None ''list'' [(''lldp'', ''lldp''), (''lshw'', ''lshw'')]
       [Element (Some ''lldp'') ''info'' [] []])"
  by code_simp

lemma merge_details_invalid_namespace:
  "merge_details example_accepts example_fromstring
      [(''lshw'', Some ''<list><node/></list>''), ([], Some ''<info/>'')]
   = Inl LxmlValueError"
  by code_simp

section \<open>Properties of the profile store\<close>

lemma update_fresh_key:
  "k \<notin> fst ` set d \<Longrightarrow> AList.update k v d = d @ [(k, v)]"
  by (induction d) auto

lemma json_roundtrip:
  "json_native v \<longrightarrow> (\<exists>j. json_dumps floatstr v = Inr j \<and> json_loads j = v)"
  "json_native_list xs \<longrightarrow>
     (\<exists>js. json_dumps_list floatstr xs = Inr js \<and> json_loads_list js = xs)"
  "json_native_items kvs \<longrightarrow>
     (\<exists>js. json_dumps_items floatstr kvs = Inr js
        \<and> (\<forall>d. distinct (map fst d @ map fst kvs) \<longrightarrow> json_loads_items js d = d @ kvs))"
proof (induction v and xs and kvs rule: json_native_json_native_list_json_native_items.induct)
  case (9 kvs)
  show ?case
  proof
    assume a: "json_native (PyDict kvs)"
    then obtain js where js: "json_dumps_items floatstr kvs = Inr js"
      "\<forall>d. distinct (map fst d @ map fst kvs) \<longrightarrow> json_loads_items js d = d @ kvs"
      using 9 by auto
    have "json_loads_items js [] = kvs" using js(2) a by force
    then show "\<exists>j. json_dumps floatstr (PyDict kvs) = Inr j \<and> json_loads j = PyDict kvs"
      using js(1) by simp
  qed
next
  case (13 k v kvs)
  show ?case
  proof
    assume a: "json_native_items ((k, v) # kvs)"
    then obtain s where s: "k = KStr s" by (cases k) auto
    obtain j where j: "json_dumps floatstr v = Inr j" "json_loads j = v" using a 13 by auto
    obtain js where js: "json_dumps_items floatstr kvs = Inr js"
      "\<forall>d. distinct (map fst d @ map fst kvs) \<longrightarrow> json_loads_items js d = d @ kvs"
      using a 13 by auto
    have "json_loads_items ((s, j) # js) d = d @ (k, v) # kvs"
      if d: "distinct (map fst d @ map fst ((k, v) # kvs))" for d
    proof -
      have "k \<notin> fst ` set d" using d by auto
      then have u: "AList.update (KStr s) v d = d @ [(k, v)]"
        using s by (simp add: update_fresh_key)
      have "distinct (map fst (d @ [(k, v)]) @ map fst kvs)" using d by auto
      then have "json_loads_items js (d @ [(k, v)]) = (d @ [(k, v)]) @ kvs"
        using js(2) by blast
      then show ?thesis using j(2) u by simp
    qed
    then show "\<exists>js. json_dumps_items floatstr ((k, v) # kvs) = Inr js
        \<and> (\<forall>d. distinct (map fst d @ map fst ((k, v) # kvs)) \<longrightarrow>
              json_loads_items js d = d @ (k, v) # kvs)"
      using j(1) js(1) s by auto
  qed
qed auto

lemma lookup_key_string: "lookup_key (KStr s) kvs = map_of kvs (KStr s)"
  by (induction kvs) auto

lemma py_eq_native:
  "json_native v \<longrightarrow> py_eq v v"
  "json_native_list xs \<longrightarrow> py_eq_list xs xs"
  "json_native_items kvs \<longrightarrow>
     (\<forall>b. (\<forall>kv \<in> set kvs. map_of b (fst kv) = Some (snd kv)) \<longrightarrow> py_eq_items kvs b)"
proof (induction v and xs and kvs rule: json_native_json_native_list_json_native_items.induct)
  case (4 x)
  show ?case by (simp add: float_eq_def)
next
  case (9 kvs)
  show ?case
  proof
    assume a: "json_native (PyDict kvs)"
    then have "\<forall>kv \<in> set kvs. map_of kvs (fst kv) = Some (snd kv)" by auto
    then have "py_eq_items kvs kvs" using a 9 by simp
    then show "py_eq (PyDict kvs) (PyDict kvs)" by simp
  qed
next
  case (13 k v kvs)
  show ?case
  proof (intro impI allI)
    fix b
    assume a: "json_native_items ((k, v) # kvs)"
      and b: "\<forall>kv \<in> set ((k, v) # kvs). map_of b (fst kv) = Some (snd kv)"
    obtain s where s: "k = KStr s" using a by (cases k) auto
    have "lookup_key k b = Some v" using b s by (simp add: lookup_key_string)
    moreover have "py_eq v v" using a 13 by simp
    moreover have "py_eq_items kvs b" using a b 13 by simp
    ultimately show "py_eq_items ((k, v) # kvs) b" by simp
  qed
qed auto

lemma find_appended_row:
  "find (\<lambda>r. row_name r = name) (filter (\<lambda>r. row_name r \<noteq> name) db @ [row])
     = (if row_name row = name then Some row else None)"
  by (induction db) auto

lemma find_deleted_row: "find (\<lambda>r. row_name r = name) (filter (\<lambda>r. row_name r \<noteq> name) db) = None"
  by (induction db) auto

lemma json_native_list_iff: "json_native_list xs \<longleftrightarrow> (\<forall>x \<in> set xs. json_native x)"
  by (induction xs) auto

lemma json_native_items_iff:
  "json_native_items kvs \<longleftrightarrow> (\<forall>kv \<in> set kvs. (\<exists>s. fst kv = KStr s) \<and> json_native (snd kv))"
  by (induction kvs) (auto split: pykey.splits)

lemma json_dumps_list_shape:
  "json_dumps_list floatstr xs = Inr js \<Longrightarrow>
     list_all2 (\<lambda>x j. json_dumps floatstr x = Inr j) xs js"
  by (induction xs arbitrary: js) (auto split: sum.splits)

lemma json_dumps_items_shape:
  "json_dumps_items floatstr kvs = Inr js \<Longrightarrow>
     list_all2 (\<lambda>kv sj. fst sj = dumps_key floatstr (fst kv)
                  \<and> json_dumps floatstr (snd kv) = Inr (snd sj)) kvs js"
  by (induction kvs arbitrary: js) (auto split: sum.splits)

lemma json_loads_items_distinct:
  "distinct (map fst d) \<Longrightarrow> distinct (map fst (json_loads_items js d))"
  by (induction js arbitrary: d) (auto simp: distinct_update)

lemma json_loads_items_keys:
  "fst ` set (json_loads_items js d) = fst ` set d \<union> KStr ` fst ` set js"
proof (induction js arbitrary: d)
  case Nil
  then show ?case by simp
next
  case (Cons a js)
  obtain s j where a: "a = (s, j)" by (cases a)
  have "fst ` set (json_loads_items (a # js) d)
      = fst ` set (AList.update (KStr s) (json_loads j) d) \<union> KStr ` fst ` set js"
    using Cons.IH a by simp
  also have "\<dots> = ({KStr s} \<union> fst ` set d) \<union> KStr ` fst ` set js"
    by (simp only: dom_update)
  also have "\<dots> = fst ` set d \<union> KStr ` fst ` set (a # js)"
    using a by auto
  finally show ?case .
qed

lemma json_loads_items_other:
  "s \<notin> fst ` set js \<Longrightarrow> map_of (json_loads_items js d) (KStr s) = map_of d (KStr s)"
  by (induction js arbitrary: d) (auto simp: update_conv)

lemma json_loads_items_map_of:
  "distinct (map fst js) \<Longrightarrow> (s, j) \<in> set js \<Longrightarrow>
     map_of (json_loads_items js d) (KStr s) = Some (json_loads j)"
proof (induction js arbitrary: d)
  case Nil
  then show ?case by simp
next
  case (Cons a js)
  obtain s' j' where a: "a = (s', j')" by (cases a)
  show ?case
  proof (cases "(s, j) \<in> set js")
    case True
    then show ?thesis using Cons a by auto
  next
    case False
    then have e: "s' = s" "j' = j" using Cons.prems a by auto
    have "s \<notin> fst ` set js" using Cons.prems a e by auto
    then show ?thesis using a e by (simp add: json_loads_items_other update_conv)
  qed
qed

lemma py_eq_items_lookup:
  "py_eq_items d kvs \<Longrightarrow> (k, w) \<in> set d \<Longrightarrow> \<exists>v. lookup_key k kvs = Some v \<and> py_eq w v"
  by (induction d) (auto split: option.splits)

lemma py_eq_list_native:
  assumes "\<And>x j. x \<in> set xs \<Longrightarrow> json_dumps floatstr x = Inr j \<Longrightarrow> py_eq (json_loads j) x
             \<Longrightarrow> json_native x"
    and "json_dumps_list floatstr xs = Inr js"
    and "py_eq_list (json_loads_list js) xs"
  shows "json_native_list xs"
  using assms
proof (induction xs arbitrary: js)
  case Nil
  then show ?case by simp
next
  case (Cons x xs)
  obtain j js' where js: "js = j # js'" "json_dumps floatstr x = Inr j"
      "json_dumps_list floatstr xs = Inr js'"
    using Cons.prems(2) by (auto split: sum.splits)
  have "py_eq (json_loads j) x" "py_eq_list (json_loads_list js') xs"
    using Cons.prems(3) js(1) by auto
  then show ?case using Cons.IH[of js'] Cons.prems(1) js by auto
qed

lemma py_eq_items_native:
  assumes ih: "\<And>k v j. (k, v) \<in> set kvs \<Longrightarrow> json_dumps floatstr v = Inr j
             \<Longrightarrow> py_eq (json_loads j) v \<Longrightarrow> json_native v"
    and dumps: "json_dumps_items floatstr kvs = Inr js"
    and len: "length (json_loads_items js []) = length kvs"
    and eq: "py_eq_items (json_loads_items js []) kvs"
  shows "distinct (map fst kvs) \<and> json_native_items kvs"
proof -
  let ?d = "json_loads_items js []"
  let ?K = "fst ` set kvs"
  let ?name = "dumps_key floatstr"
  have shape: "list_all2 (\<lambda>kv sj. fst sj = ?name (fst kv)
                  \<and> json_dumps floatstr (snd kv) = Inr (snd sj)) kvs js"
    using dumps by (rule json_dumps_items_shape)
  have names: "map fst js = map ?name (map fst kvs)"
    using shape by (induction rule: list_all2_induct) auto
  have dd: "distinct (map fst ?d)" by (simp add: json_loads_items_distinct)
  have "fst ` set js = ?name ` ?K"
    using arg_cong[OF names, of set] by (simp only: set_map)
  then have keys: "fst ` set ?d = KStr ` ?name ` ?K"
    using json_loads_items_keys[of js "[]"] by simp
  have "length kvs = card (fst ` set ?d)"
    using dd len distinct_card[of "map fst ?d"] by simp
  also have "\<dots> = card (?name ` ?K)"
    unfolding keys by (rule card_image) (simp add: inj_on_def)
  finally have c: "card (?name ` ?K) = length kvs" by simp
  have "card (?name ` ?K) \<le> card ?K" by (simp add: card_image_le)
  moreover have "card ?K \<le> length kvs"
    using card_length[of "map fst kvs"] by simp
  ultimately have cK: "card ?K = length kvs" and cn: "card (?name ` ?K) = card ?K"
    using c by auto
  have dk: "distinct (map fst kvs)"
    using cK card_distinct[of "map fst kvs"] by simp
  have inj: "inj_on ?name ?K"
    using cn by (simp add: eq_card_imp_inj_on)
  have sub: "KStr ` ?name ` ?K \<subseteq> ?K"
  proof
    fix k assume k: "k \<in> KStr ` ?name ` ?K"
    then have s: "\<exists>s. k = KStr s" by auto
    have "k \<in> fst ` set ?d" using k keys by simp
    then obtain w where w: "(k, w) \<in> set ?d" by auto
    obtain v where "lookup_key k kvs = Some v"
      using py_eq_items_lookup[OF eq w] by blast
    then have "map_of kvs k = Some v" using s by (auto simp: lookup_key_string)
    then show "k \<in> ?K" by (auto dest: map_of_SomeD intro: rev_image_eqI)
  qed
  have "card (KStr ` ?name ` ?K) = card ?K"
    using cn by (simp add: card_image inj_on_def)
  then have all: "KStr ` ?name ` ?K = ?K"
    using sub by (simp add: card_subset_eq)
  have str: "\<exists>s. k = KStr s" if "k \<in> ?K" for k
    using that all by blast
  have nat: "json_native v" if kv: "(k, v) \<in> set kvs" for k v
  proof -
    obtain s where s: "k = KStr s" using str kv by force
    obtain i where i: "i < length kvs" "kvs ! i = (k, v)"
      using kv by (auto simp: in_set_conv_nth)
    have l: "length js = length kvs" using shape by (simp add: list_all2_lengthD)
    have sj: "fst (js ! i) = s" "json_dumps floatstr v = Inr (snd (js ! i))"
      using list_all2_nthD[OF shape i(1)] i(2) s by auto
    have "distinct (map ?name (map fst kvs))"
      using dk inj by (subst distinct_map) simp
    then have "distinct (map fst js)" by (simp only: names)
    moreover have "(s, snd (js ! i)) \<in> set js"
      using sj(1) i(1) l by (metis nth_mem prod.collapse)
    ultimately have "map_of ?d (KStr s) = Some (json_loads (snd (js ! i)))"
      by (intro json_loads_items_map_of)
    then have "(k, json_loads (snd (js ! i))) \<in> set ?d"
      using s by (auto dest: map_of_SomeD)
    then obtain v' where v': "lookup_key k kvs = Some v'" "py_eq (json_loads (snd (js ! i))) v'"
      using py_eq_items_lookup[OF eq] by blast
    have "map_of kvs k = Some v" using dk kv by simp
    then have "v' = v" using v'(1) s by (simp add: lookup_key_string)
    then show ?thesis using ih[OF kv sj(2)] v'(2) by simp
  qed
  have "json_native_items kvs"
    unfolding json_native_items_iff using str nat by force
  then show ?thesis using dk by simp
qed

text \<open>
  A value that \<open>json.dumps\<close> accepts and that is equal to what \<open>json.loads\<close> reads back
  holds no tuple, no key other than a string and no NaN.
\<close>

lemma roundtrip_only_native:
  "json_dumps floatstr v = Inr j \<Longrightarrow> py_eq (json_loads j) v \<Longrightarrow> json_native v"
proof (induction v arbitrary: j)
  case (PyFloat x)
  then show ?case by (cases "is_nan x") (auto simp: float_eq_def)
next
  case (PyList xs)
  obtain js where js: "json_dumps_list floatstr xs = Inr js" "j = JArray js"
    using PyList.prems(1) by (auto split: sum.splits)
  have "py_eq_list (json_loads_list js) xs" using PyList.prems(2) js(2) by simp
  then have "json_native_list xs"
    using PyList.IH js(1) by (intro py_eq_list_native[where js = js and floatstr = floatstr]) auto
  then show ?case by simp
next
  case (PyTuple xs)
  then show ?case by (auto split: sum.splits)
next
  case (PyDict kvs)
  obtain js where js: "json_dumps_items floatstr kvs = Inr js" "j = JObject js"
    using PyDict.prems(1) by (auto split: sum.splits)
  have e: "length (json_loads_items js []) = length kvs"
      "py_eq_items (json_loads_items js []) kvs"
    using PyDict.prems(2) js(2) by auto
  have "distinct (map fst kvs) \<and> json_native_items kvs"
  proof (rule py_eq_items_native[where js = js and floatstr = floatstr])
    fix k v j'
    assume "(k, v) \<in> set kvs" "json_dumps floatstr v = Inr j'" "py_eq (json_loads j') v"
    then show "json_native v" using PyDict.IH[of "(k, v)" v j'] by simp
  qed (use js(1) e in auto)
  then show ?case by simp
qed auto

text \<open>
  Claim C5, as amended.  For any profile name \<open>n\<close> and any JSON-serializable value \<open>v\<close>
  that holds no tuple, no dictionary key other than a string and no NaN (so: \<open>None\<close>,
  booleans, integers, floats other than NaN, strings, lists of such values, dictionaries
  from distinct strings to such values), \<open>store[n] = v\<close> succeeds and afterwards
  \<open>store[n]\<close> returns a value equal to \<open>v\<close>, which is \<open>v\<close> itself, \<open>n\<close> is among the
  enumerated names, and after \<open>del store[n]\<close> the lookup \<open>store[n]\<close> fails with
  \<open>KeyError\<close>.
\<close>

theorem profile_roundtrip:
  assumes "json_native v"
  shows "\<exists>db' w. setitem floatstr db n v = Inr db'
      \<and> getitem db' n = Inr w \<and> py_eq w v \<and> w = v
      \<and> n \<in> set (iter_profiles db')
      \<and> getitem (delitem db' n) n = Inl (KeyError n)"
proof -
  obtain j where j: "json_dumps floatstr v = Inr j" "json_loads j = v"
    using assms json_roundtrip(1)[of v floatstr] by auto
  let ?db' = "filter (\<lambda>r. row_name r \<noteq> n) db @ [\<lparr>row_id = next_rowid db, row_name = n, row_data = j\<rparr>]"
  have 1: "setitem floatstr db n v = Inr ?db'" by (simp add: setitem_def j(1))
  have 2: "getitem ?db' n = Inr v" by (simp add: getitem_def find_appended_row j(2))
  have 3: "n \<in> set (iter_profiles ?db')" by (simp add: iter_profiles_def)
  have 4: "getitem (delitem ?db' n) n = Inl (KeyError n)"
    by (simp add: getitem_def delitem_def find_deleted_row)
  have 5: "py_eq v v" using assms py_eq_native(1)[of v] by simp
  show ?thesis using 1 2 3 4 5 by blast
qed

theorem profile_roundtrip_witness:
  "json_native (PyDict [(KStr ''url'', PyStr ''http://maas/''),
      (KStr ''ratio'', PyFloat 0x3FF8000000000000), (KStr ''ids'', PyList [PyInt 1, PyNone])])
   \<and> (\<exists>db' w. setitem example_floatstr [] ''admin''
               (PyDict [(KStr ''url'', PyStr ''http://maas/''),
                  (KStr ''ratio'', PyFloat 0x3FF8000000000000),
                  (KStr ''ids'', PyList [PyInt 1, PyNone])])
             = Inr db'
        \<and> getitem db' ''admin'' = Inr w
        \<and> py_eq w (PyDict [(KStr ''url'', PyStr ''http://maas/''),
                  (KStr ''ratio'', PyFloat 0x3FF8000000000000),
                  (KStr ''ids'', PyList [PyInt 1, PyNone])])
        \<and> w = PyDict [(KStr ''url'', PyStr ''http://maas/''),
                  (KStr ''ratio'', PyFloat 0x3FF8000000000000),
                  (KStr ''ids'', PyList [PyInt 1, PyNone])]
        \<and> ''admin'' \<in> set (iter_profiles db')
        \<and> getitem (delitem db' ''admin'') ''admin'' = Inl (KeyError ''admin''))"
proof -
  have h: "json_native (PyDict [(KStr ''url'', PyStr ''http://maas/''),
      (KStr ''ratio'', PyFloat 0x3FF8000000000000), (KStr ''ids'', PyList [PyInt 1, PyNone])])"
    by code_simp
  show ?thesis
    using h profile_roundtrip[OF h, of example_floatstr "[]" "''admin''"] by blast
qed

text \<open>
  The claim as stated fails for a tuple, which \<open>json.dumps\<close> accepts and writes as an
  array: \<open>store["p"] = (1, 2)\<close> is followed by \<open>store["p"] == [1, 2]\<close>, a list, and a list
  is not equal to a tuple.
\<close>

theorem profile_tuple_counterexample:
  "setitem example_floatstr [] ''p'' (PyTuple [PyInt 1, PyInt 2])
     = Inr [\<lparr>row_id = 1, row_name = ''p'', row_data = JArray [JNumber 1, JNumber 2]\<rparr>]
   \<and> getitem [\<lparr>row_id = 1, row_name = ''p'', row_data = JArray [JNumber 1, JNumber 2]\<rparr>] ''p''
     = Inr (PyList [PyInt 1, PyInt 2])
   \<and> \<not> py_eq (PyList [PyInt 1, PyInt 2]) (PyTuple [PyInt 1, PyInt 2])"
  by (simp add: setitem_def getitem_def next_rowid_def)

text \<open>
  It fails as well for a dictionary with a key that is not a string, which comes back
  with the key turned into a string, and for NaN, which is equal to nothing.
\<close>

lemma profile_integer_key_example:
  "setitem example_floatstr [] ''p'' (PyDict [(KInt 12, PyStr ''a'')])
     = Inr [\<lparr>row_id = 1, row_name = ''p'', row_data = JObject [(''12'', JString ''a'')]\<rparr>]
   \<and> getitem [\<lparr>row_id = 1, row_name = ''p'', row_data = JObject [(''12'', JString ''a'')]\<rparr>] ''p''
     = Inr (PyDict [(KStr ''12'', PyStr ''a'')])
   \<and> \<not> py_eq (PyDict [(KStr ''12'', PyStr ''a'')]) (PyDict [(KInt 12, PyStr ''a'')])"
  by code_simp

lemma profile_float_key_example:
  "setitem example_floatstr [] ''p'' (PyDict [(KFloat 0x3FF8000000000000, PyNone)])
     = Inr [\<lparr>row_id = 1, row_name = ''p'', row_data = JObject [(''1.5'', JNull)]\<rparr>]"
  by code_simp

lemma profile_nan_example:
  "is_nan float_nan
   \<and> setitem floatstr [] ''p'' (PyFloat float_nan)
     = Inr [\<lparr>row_id = 1, row_name = ''p'', row_data = JNaN\<rparr>]
   \<and> getitem [\<lparr>row_id = 1, row_name = ''p'', row_data = JNaN\<rparr>] ''p'' = Inr (PyFloat float_nan)
   \<and> \<not> py_eq (PyFloat float_nan) (PyFloat float_nan)"
proof -
  have n: "is_nan float_nan"
    by (simp add: is_nan_def float_exponent_def float_fraction_def float_nan_def)
  show ?thesis
    by (simp add: n setitem_def getitem_def next_rowid_def float_eq_def)
qed

lemma profile_bytes_example: "setitem floatstr db n (PyBytes b) = Inl JsonTypeError"
  by (simp add: setitem_def)

text \<open>
  These are all the failures: a value that has been stored is equal to the value read
  back if and only if it holds no tuple, no key other than a string and no NaN.
\<close>

lemma stored_value_equal_iff_native:
  assumes "setitem floatstr db n v = Inr db'"
  shows "(\<exists>w. getitem db' n = Inr w \<and> py_eq w v) \<longleftrightarrow> json_native v"
proof -
  obtain j where j: "json_dumps floatstr v = Inr j"
    and db': "db' = filter (\<lambda>r. row_name r \<noteq> n) db
                      @ [\<lparr>row_id = next_rowid db, row_name = n, row_data = j\<rparr>]"
    using assms by (auto simp: setitem_def split: sum.splits)
  have g: "getitem db' n = Inr (json_loads j)"
    by (simp add: db' getitem_def find_appended_row)
  show ?thesis
  proof
    assume "\<exists>w. getitem db' n = Inr w \<and> py_eq w v"
    then have "py_eq (json_loads j) v" using g by simp
    then show "json_native v" using j by (rule roundtrip_only_native[rotated])
  next
    assume a: "json_native v"
    then have "json_loads j = v" using json_roundtrip(1)[of v floatstr] j by auto
    then show "\<exists>w. getitem db' n = Inr w \<and> py_eq w v"
      using g a py_eq_native(1)[of v] by simp
  qed
qed

text \<open>
  Equality of numbers across types, on the doubles \<open>1.0\<close>, \<open>1.5\<close>, \<open>0.0\<close>, \<open>-0.0\<close> and
  \<open>inf\<close>, and the order of the enumerated names.
\<close>

lemma float_fields_one:
  "float_exponent 0x3FF0000000000000 = 1023" "float_fraction 0x3FF0000000000000 = 0"
  "float_sign 0x3FF0000000000000 = False"
  by (simp_all add: float_exponent_def float_fraction_def float_sign_def)

lemma float_fields_three_halves:
  "float_exponent 0x3FF8000000000000 = 1023" "float_fraction 0x3FF8000000000000 = 2 ^ 51"
  "float_sign 0x3FF8000000000000 = False"
  by (simp_all add: float_exponent_def float_fraction_def float_sign_def)

lemma float_fields_zero:
  "float_exponent 0 = 0" "float_fraction 0 = 0"
  "float_exponent 0x8000000000000000 = 0" "float_fraction 0x8000000000000000 = 0"
  by (simp_all add: float_exponent_def float_fraction_def)

lemma float_fields_inf:
  "float_exponent 0x7FF0000000000000 = 2047" "float_fraction 0x7FF0000000000000 = 0"
  by (simp_all add: float_exponent_def float_fraction_def)

lemma py_eq_numbers:
  "py_eq (PyInt 1) (PyFloat 0x3FF0000000000000) \<and> py_eq (PyBool True) (PyInt 1)
   \<and> py_eq (PyFloat 0) (PyFloat 0x8000000000000000) \<and> py_eq (PyFloat 0x8000000000000000) (PyInt 0)
   \<and> \<not> py_eq (PyInt 1) (PyFloat 0x3FF8000000000000) \<and> \<not> py_eq (PyInt 1) (PyStr ''1'')
   \<and> \<not> py_eq (PyInt 0) (PyFloat 0x7FF0000000000000)"
  by (simp add: int_eq_float_def float_eq_def is_nan_def is_zero_def float_fields_one
      float_fields_three_halves float_fields_zero float_fields_inf)

lemma iter_profiles_sorted:
  "map_sum id iter_profiles
     (case setitem example_floatstr [] ''b'' PyNone of
        Inl e \<Rightarrow> Inl e
      | Inr db \<Rightarrow> setitem example_floatstr db ''a'' (PyInt 1))
   = Inr [''a'', ''b'']"
  by code_simp

section \<open>Properties of the VLAN form\<close>

text \<open>
  Claim C6.  For a VLAN that has a primary rack \<open>R1\<close> and a secondary
  rack \<open>R2\<close>, the update \<open>{"primary_rack": ""}\<close> succeeds and leaves \<open>R2\<close> as primary
  rack and no secondary rack; the update that sets \<open>primary_rack\<close> to \<open>R2\<close>, a rack
  attached to the VLAN, has the same result, not a VLAN with \<open>R2\<close> in both slots.
\<close>

theorem vlan_promote_secondary:
  assumes "primary_rack v = Some r1" and "secondary_rack v = Some r2"
  shows "vlan_form_update ctx v (no_data\<lparr>data_primary_rack := Blank\<rparr>)
           = Inr (v\<lparr>primary_rack := Some r2, secondary_rack := None\<rparr>)
     \<and> (r2 \<in> set (racks_on_vlan ctx) \<longrightarrow>
          vlan_form_update ctx v (no_data\<lparr>data_primary_rack := Submitted r2\<rparr>)
            = Inr (v\<lparr>primary_rack := Some r2, secondary_rack := None\<rparr>))"
  using assms
  by (simp add: vlan_form_update_def no_data_def rack_on_vlan_def retained_def cleaned_racks_def)

theorem vlan_promote_secondary_witness:
  "vlan_form_update \<lparr>racks_on_vlan = [''rack-a'', ''rack-b''], has_subnet_with_range = False\<rparr>
      \<lparr>vlan_vid = 10, vlan_name = ''vlan10'', vlan_mtu = 1500, primary_rack = Some ''rack-a'',
       secondary_rack = Some ''rack-b'', dhcp_on = False\<rparr>
      (no_data\<lparr>data_primary_rack := Blank\<rparr>)
     = Inr \<lparr>vlan_vid = 10, vlan_name = ''vlan10'', vlan_mtu = 1500, primary_rack = Some ''rack-b'',
            secondary_rack = None, dhcp_on = False\<rparr>
   \<and> vlan_form_update \<lparr>racks_on_vlan = [''rack-a'', ''rack-b''], has_subnet_with_range = False\<rparr>
      \<lparr>vlan_vid = 10, vlan_name = ''vlan10'', vlan_mtu = 1500, primary_rack = Some ''rack-a'',
       secondary_rack = Some ''rack-b'', dhcp_on = False\<rparr>
      (no_data\<lparr>data_primary_rack := Submitted ''rack-b''\<rparr>)
     = Inr \<lparr>vlan_vid = 10, vlan_name = ''vlan10'', vlan_mtu = 1500, primary_rack = Some ''rack-b'',
            secondary_rack = None, dhcp_on = False\<rparr>"
  using vlan_promote_secondary[of
      "\<lparr>vlan_vid = 10, vlan_name = ''vlan10'', vlan_mtu = 1500, primary_rack = Some ''rack-a'',
        secondary_rack = Some ''rack-b'', dhcp_on = False\<rparr>" "''rack-a''" "''rack-b''"
      "\<lparr>racks_on_vlan = [''rack-a'', ''rack-b''], has_subnet_with_range = False\<rparr>"]
  by simp

text \<open>The cases of \<open>tests/test_forms_vlan.py\<close> about racks and DHCP, on the model.\<close>

lemma test_update_secondary_set_to_existing_primary_fails:
  "primary_rack v = Some r \<Longrightarrow> r \<in> set (racks_on_vlan ctx) \<Longrightarrow>
   vlan_form_update ctx v (no_data\<lparr>data_secondary_rack := Submitted r\<rparr>) = Inl SameRackTwice"
  by (simp add: vlan_form_update_def no_data_def rack_on_vlan_def retained_def)

lemma test_update_setting_both_racks_to_same_fails:
  "r \<in> set (racks_on_vlan ctx) \<Longrightarrow>
   vlan_form_update ctx v
     (no_data\<lparr>data_primary_rack := Submitted r, data_secondary_rack := Submitted r\<rparr>)
   = Inl SameRackTwice"
  by (simp add: vlan_form_update_def no_data_def rack_on_vlan_def retained_def)

lemma test_update_verifies_primary_rack_is_on_vlan:
  "r \<notin> set (racks_on_vlan ctx) \<Longrightarrow>
   vlan_form_update ctx v (no_data\<lparr>data_primary_rack := Submitted r\<rparr>) = Inl (RackNotOnVLAN r)"
  by (simp add: vlan_form_update_def no_data_def rack_on_vlan_def retained_def)

lemma test_update_unsets_secondary_rack:
  "primary_rack v = None \<Longrightarrow>
   vlan_form_update ctx v (no_data\<lparr>data_secondary_rack := Blank\<rparr>)
   = Inr (v\<lparr>secondary_rack := None\<rparr>)"
  by (simp add: vlan_form_update_def no_data_def rack_on_vlan_def retained_def cleaned_racks_def)

lemma test_update_validates_primary_rack_with_dhcp_on:
  "primary_rack v = None \<Longrightarrow> secondary_rack v = None \<Longrightarrow>
   vlan_form_update ctx v (no_data\<lparr>data_dhcp_on := Submitted True\<rparr>) = Inl DhcpNeedsPrimaryRack"
  by (simp add: vlan_form_update_def no_data_def rack_on_vlan_def retained_def cleaned_racks_def)

lemma test_update_can_delete_primary_and_set_dhcp_on_with_secondary:
  "primary_rack v = Some r1 \<Longrightarrow> secondary_rack v = Some r2 \<Longrightarrow> has_subnet_with_range ctx \<Longrightarrow>
   vlan_form_update ctx v (no_data\<lparr>data_primary_rack := Blank, data_dhcp_on := Submitted True\<rparr>)
   = Inr (v\<lparr>primary_rack := Some r2, secondary_rack := None, dhcp_on := True\<rparr>)"
  by (simp add: vlan_form_update_def no_data_def rack_on_vlan_def retained_def cleaned_racks_def)

section \<open>Properties of the region controller service\<close>

lemma tick_halted: "\<not> processing_running s \<Longrightarrow> foldl tick s outcomes = s"
  by (induction outcomes) (auto simp: tick_def)

text \<open>
  Claim C7.  Starting a new service registers the two callbacks, marks the DNS flag and
  the proxy flag and starts the timer; the pass of the first tick calls the DNS-zone
  regeneration and the proxy-configuration regeneration once each, whether they succeed
  or fail, and leaves the timer halted and the tracked processing reference none; with
  the timer halted, further ticks change nothing, so each routine has run exactly once.
\<close>

theorem startService_then_one_pass:
  "needsDNSUpdate (startService RegionControllerService)
   \<and> needsProxyUpdate (startService RegionControllerService)
   \<and> processing_running (startService RegionControllerService)
   \<and> processingDefer (startService RegionControllerService) = Some Deferred
   \<and> registered (startService RegionControllerService)
       = [(''sys_dns'', MarkDNSForUpdate), (''sys_proxy'', MarkProxyForUpdate)]
   \<and> dns_update_all_zones_calls (startService RegionControllerService) = 0
   \<and> proxy_update_config_calls (startService RegionControllerService) = 0
   \<and> dns_update_all_zones_calls (tick (startService RegionControllerService) outcome) = 1
   \<and> proxy_update_config_calls (tick (startService RegionControllerService) outcome) = 1
   \<and> \<not> processing_running (tick (startService RegionControllerService) outcome)
   \<and> processingDefer (tick (startService RegionControllerService) outcome) = None
   \<and> \<not> needsDNSUpdate (tick (startService RegionControllerService) outcome)
   \<and> \<not> needsProxyUpdate (tick (startService RegionControllerService) outcome)
   \<and> foldl tick (tick (startService RegionControllerService) outcome) later
       = tick (startService RegionControllerService) outcome"
proof -
  have s: "startService RegionControllerService
      = \<lparr>needsDNSUpdate = True, needsProxyUpdate = True, processing_running = True,
         processingDefer = Some Deferred,
         registered = [(''sys_dns'', MarkDNSForUpdate), (''sys_proxy'', MarkProxyForUpdate)],
         dns_update_all_zones_calls = 0, proxy_update_config_calls = 0, log_messages = []\<rparr>"
    by (simp add: startService_def markDNSForUpdate_def markProxyForUpdate_def
        startProcessing_def RegionControllerService_def)
  have t: "\<not> processing_running (tick (startService RegionControllerService) outcome)"
    by (simp add: s tick_def process_def process_dns_def process_proxy_def)
  show ?thesis
    using tick_halted[OF t, of later]
    by (simp add: s tick_def process_def process_dns_def process_proxy_def)
qed

text \<open>Cases of \<open>tests/test_region_controller.py\<close>, on the model.\<close>

lemma test_init_sets_properties:
  "processingDefer RegionControllerService = None
   \<and> \<not> needsDNSUpdate RegionControllerService
   \<and> \<not> processing_running RegionControllerService"
  by (simp add: RegionControllerService_def)

lemma test_startProcessing_doesnt_call_start_when_looping_call_running:
  "processing_running s \<Longrightarrow> startProcessing s = s"
  by (simp add: startProcessing_def)

lemma test_process_doesnt_update_zones_when_nothing_to_process:
  "dns_update_all_zones_calls (tick (startProcessing RegionControllerService) outcome) = 0
   \<and> proxy_update_config_calls (tick (startProcessing RegionControllerService) outcome) = 0"
  by (simp add: tick_def process_def process_dns_def process_proxy_def startProcessing_def
      RegionControllerService_def)

lemma test_process_stops_processing:
  "processingDefer (tick (startProcessing RegionControllerService) outcome) = None"
  by (simp add: tick_def process_def process_dns_def process_proxy_def startProcessing_def
      RegionControllerService_def)

lemma test_process_updates_zones_logs_failure:
  "log_messages (tick (markDNSForUpdate RegionControllerService) (False, True))
     = [''Failed configuring DNS.'']"
  by (simp add: tick_def process_def process_dns_def process_proxy_def startProcessing_def
      markDNSForUpdate_def RegionControllerService_def)

lemma test_stopService_handles_canceling_processing:
  "processingDefer (stopService (startProcessing RegionControllerService)) = None"
  by (simp add: stopService_def)

end
